theory Spec2Isabelle
  imports Main
begin

section \<open>Values of the wire format\<close>

text \<open>
  The bodies the server reads (\<open>req.body\<close>, parsed by \<open>express.json()\<close>) and the objects
  it hands to \<open>res.json\<close> and \<open>transport.send\<close> are JSON values. An object keeps its
  fields in the order the source writes them.
\<close>

datatype json =
    JNull
  | JBool bool
  | JNum int
  | JStr string
  | JArr "json list"
  | JObj "(string \<times> json) list"

text \<open>Values the source throws: \<open>new Error(message)\<close>, the \<open>TypeError\<close> of calling a
  member that is not a function, and whatever a call into the SDK rejects with.\<close>

datatype js_error =
    Error string
  | TypeError string
  | SdkError string

datatype verb = GET | POST

section \<open>Array.prototype.some and isInitializeRequest\<close>

text \<open>\<open>body.some(f)\<close>: left to right, stopping at the first element that satisfies \<open>f\<close>.\<close>

fun some :: "('a \<Rightarrow> bool) \<Rightarrow> 'a list \<Rightarrow> bool" where
  "some f [] = False"
| "some f (x # xs) = (if f x then True else some f xs)"

text \<open>
  \<open>MCPServer.isInitializeRequest\<close>. The schema \<open>InitializeRequestSchema\<close> belongs to the
  SDK; its verdict \<open>safeParse(data).success\<close> is the parameter \<open>isInitial\<close>.
\<close>

definition isInitializeRequest :: "(json \<Rightarrow> bool) \<Rightarrow> json \<Rightarrow> bool" where
  "isInitializeRequest isInitial body =
     (case body of
        JArr requests \<Rightarrow> some isInitial requests
      | _ \<Rightarrow> isInitial body)"

section \<open>randomUUID\<close>

text \<open>
  \<open>crypto.randomUUID()\<close> of Node returns a version 4 UUID in its canonical text form:
  32 lower-case hexadecimal digits in groups of 8, 4, 4, 4 and 12 separated by \<open>-\<close>,
  the first digit of the third group \<open>4\<close> and the first digit of the fourth group one of
  \<open>8\<close>, \<open>9\<close>, \<open>a\<close>, \<open>b\<close>. The random bits are the argument: \<open>r i\<close> is the
  random number behind the digit at position \<open>i\<close>.
\<close>

definition hexChar :: "nat \<Rightarrow> char" where
  "hexChar n = ''0123456789abcdef'' ! (n mod 16)"

definition uuidDigits :: "(nat \<Rightarrow> nat) \<Rightarrow> string" where
  "uuidDigits r =
     (map (\<lambda>i. hexChar (r i)) [0..<32])
       [12 := CHR ''4'', 16 := ''89ab'' ! (r 16 mod 4)]"

definition randomUUID :: "(nat \<Rightarrow> nat) \<Rightarrow> string" where
  "randomUUID r =
     (let d = uuidDigits r in
      take 8 d @ ''-'' @ take 4 (drop 8 d) @ ''-'' @ take 4 (drop 12 d) @ ''-'' @
      take 4 (drop 16 d) @ ''-'' @ drop 20 d)"

section \<open>The server's state and its surroundings\<close>

text \<open>
  \<open>this.transports\<close> is a plain object (\<open>= {}\<close>) used as a dictionary from session
  id to transport. Its own properties are the map \<open>transports\<close>; a transport object is
  a reference (a number), since the registry and the SDK share the object. An object
  literal has \<open>Object.prototype\<close> as its prototype, and \<open>this.transports[k]\<close> looks
  \<open>k\<close> up along the prototype chain: for a key that is no own property it finds what
  \<open>Object.prototype\<close> holds under that name. These are the names; each value is a
  function, or for \<open>__proto__\<close> the prototype object itself, so each is truthy and
  none has a member \<open>handleRequest\<close>.
\<close>

definition objectPrototypeKeys :: "string list" where
  "objectPrototypeKeys =
     [''constructor'', ''__defineGetter__'', ''__defineSetter__'', ''hasOwnProperty'',
      ''__lookupGetter__'', ''__lookupSetter__'', ''isPrototypeOf'',
      ''propertyIsEnumerable'', ''toString'', ''valueOf'', ''__proto__'',
      ''toLocaleString'']"

datatype property =
    Undefined
  | Own nat
  | Inherited

text \<open>The calls the server makes on objects it does not own, in the order it makes them.\<close>

datatype event =
    Connect nat
  | HandleRequest nat verb "json option"
  | Send nat json
  | IntervalClose nat
  | ServerClose
  | Respond nat json
  | ProcessExit nat

text \<open>
  Modelled from the spec: what a transport answers to the client. The transport class
  (\<open>StreamableHTTPServerTransport\<close>) belongs to the SDK and is not part of the sources.
  The specification has the session id returned to the caller in a response header by
  the submission that creates the session (section 6), and has \<open>openPush\<close> establish
  the one outbound channel of a session or fail with \<open>AlreadyOpen\<close> (section 4.2).
\<close>

datatype answer =
    SessionId string
  | PushOpened
  | AlreadyOpen

record request =
  sessionHeader :: "string option"
  body :: json

text \<open>
  A handler is an \<open>async\<close> function: at each \<open>await\<close> it is suspended until the
  awaited call has settled, and other handlers run in between. A suspended handler is
  what it waits for, on which transport, and what the call settles with (\<open>None\<close>: it
  resolves; \<open>Some e\<close>: it rejects with \<open>e\<close>):
  \<^item> \<open>AwaitGetHandle\<close>: \<open>handleGetRequest\<close> at \<open>await transport.handleRequest(req, res)\<close>;
  \<^item> \<open>AwaitPostHandle\<close>: \<open>handlePostRequest\<close> at
    \<open>await transport.handleRequest(req, res, req.body)\<close> on a registered transport;
  \<^item> \<open>AwaitConnect\<close>: \<open>handlePostRequest\<close> at \<open>await this.server.connect(transport)\<close>
    with its new transport and its request;
  \<^item> \<open>AwaitNewHandle\<close>: \<open>handlePostRequest\<close> at
    \<open>await transport.handleRequest(req, res, req.body)\<close> on its new transport;
  \<^item> \<open>AwaitServerClose\<close>: the \<open>SIGINT\<close> handler, inside \<open>cleanup\<close>, at
    \<open>await this.server.close()\<close>.
\<close>

datatype pending =
    AwaitGetHandle nat "js_error option"
  | AwaitPostHandle nat "js_error option"
  | AwaitConnect nat request "js_error option"
  | AwaitNewHandle nat "js_error option"
  | AwaitServerClose "js_error option"

text \<open>
  The state: the registry; \<open>transport.sessionId\<close> of every transport object
  (\<open>None\<close> is \<open>undefined\<close>); the number of transport objects created so far;
  \<open>this.toolInterval\<close>, which no code assigns; the number of \<open>randomUUID()\<close> calls
  made so far; the calls made so far; the suspended handlers; and, of the transports'
  side, which transports have an open push channel and what the transports answered.
\<close>

record state =
  transports :: "string \<rightharpoonup> nat"
  sessionIdOf :: "nat \<Rightarrow> string option"
  allocated :: nat
  toolInterval :: "nat option"
  uuids :: nat
  trace :: "event list"
  pending :: "pending list"
  pushChannel :: "nat \<Rightarrow> bool"
  answers :: "(nat \<times> answer) list"

text \<open>
  What the code cannot decide by itself: the SDK's schema, whether a call into the SDK
  rejects, whether a transport accepts a request as its initialization (and then takes
  its session id from the \<open>sessionIdGenerator\<close> it was built with), and the random bits
  of each \<open>randomUUID()\<close> call. The SDK's answers may depend on every call made so far.
  A call of \<open>handleRequest\<close> either throws or returns; \<open>Returns True\<close> says that the
  transport took the request as its initialization. A transport's session id is set at
  most once, and only so.
\<close>

datatype handled =
    Throws js_error
  | Returns bool

record env =
  safeParseInitialize :: "json \<Rightarrow> bool"
  sdkConnect :: "event list \<Rightarrow> nat \<Rightarrow> js_error option"
  sdkHandleRequest :: "event list \<Rightarrow> nat \<Rightarrow> verb \<Rightarrow> json option \<Rightarrow> handled"
  sdkClose :: "event list \<Rightarrow> js_error option"
  entropy :: "nat \<Rightarrow> nat \<Rightarrow> nat"

definition initialState :: state where
  "initialState =
     \<lparr>transports = Map.empty, sessionIdOf = (\<lambda>_. None), allocated = 0,
      toolInterval = None, uuids = 0, trace = [], pending = [],
      pushChannel = (\<lambda>_. False), answers = []\<rparr>"

text \<open>JavaScript truthiness of a \<open>string | undefined\<close>: \<open>undefined\<close> and \<open>""\<close> are falsy.\<close>

definition truthy :: "string option \<Rightarrow> bool" where
  "truthy h = (case h of None \<Rightarrow> False | Some v \<Rightarrow> v \<noteq> [])"

text \<open>\<open>this.transports[k]\<close>.\<close>

definition getTransport :: "state \<Rightarrow> string \<Rightarrow> property" where
  "getTransport s k =
     (case transports s k of
        Some t \<Rightarrow> Own t
      | None \<Rightarrow> if k \<in> set objectPrototypeKeys then Inherited else Undefined)"

definition emit :: "event \<Rightarrow> state \<Rightarrow> state" where
  "emit e s = s\<lparr>trace := trace s @ [e]\<rparr>"

text \<open>One call of \<open>randomUUID()\<close>.\<close>

definition nextUUID :: "env \<Rightarrow> state \<Rightarrow> string \<times> state" where
  "nextUUID w s = (randomUUID (entropy w (uuids s)), s\<lparr>uuids := Suc (uuids s)\<rparr>)"

text \<open>\<open>MCPServer.createErrorResponse\<close>.\<close>

definition createErrorResponse :: "env \<Rightarrow> state \<Rightarrow> string \<Rightarrow> json \<times> state" where
  "createErrorResponse w s message =
     (let (token, s1) = nextUUID w s in
      (JObj [(''jsonrpc'', JStr ''2.0''),
             (''error'', JObj [(''code'', JNum (- 32000)), (''message'', JStr message)]),
             (''id'', JStr token)], s1))"

text \<open>\<open>res.status(n).json(this.createErrorResponse(message))\<close>.\<close>

definition respondError :: "env \<Rightarrow> state \<Rightarrow> nat \<Rightarrow> string \<Rightarrow> state" where
  "respondError w s n message =
     (let (e, s1) = createErrorResponse w s message in emit (Respond n e) s1)"

text \<open>
  \<open>new StreamableHTTPServerTransport({sessionIdGenerator: () => randomUUID()})\<close>: a fresh
  object, with no session id yet.
\<close>

definition newTransport :: "state \<Rightarrow> nat \<times> state" where
  "newTransport s =
     (allocated s,
      s\<lparr>allocated := Suc (allocated s),
        sessionIdOf := (sessionIdOf s)(allocated s := None)\<rparr>)"

text \<open>
  Modelled from the spec: the transport's answer that carries the session id. The
  transport class is the SDK's and not part of the sources; by section 6 of the
  specification the submission that creates the session returns the session id to the
  caller in a response header.
\<close>

definition returnSessionId :: "nat \<Rightarrow> string \<Rightarrow> state \<Rightarrow> state" where
  "returnSessionId t u s = s\<lparr>answers := answers s @ [(t, SessionId u)]\<rparr>"

text \<open>
  Modelled from the spec: the transport's \<open>openPush\<close> (section 4.2), which the SDK's
  transport class implements and the sources do not contain. It establishes the one
  outbound channel of the session, and fails with \<open>AlreadyOpen\<close> if a push channel
  already exists for this session.
\<close>

definition openPush :: "nat \<Rightarrow> state \<Rightarrow> state" where
  "openPush t s =
     (if pushChannel s t then s\<lparr>answers := answers s @ [(t, AlreadyOpen)]\<rparr>
      else s\<lparr>pushChannel := (pushChannel s)(t := True),
             answers := answers s @ [(t, PushOpened)]\<rparr>)"

text \<open>
  Modelled from the spec: the end of a push channel, which lies with the client and the
  SDK's transport and not with the sources. By section 5 the channel remains open until
  the client disconnects, the session closes, or a transport error occurs.
\<close>

definition closePush :: "nat \<Rightarrow> state \<Rightarrow> state" where
  "closePush t s = s\<lparr>pushChannel := (pushChannel s)(t := False)\<rparr>"

text \<open>
  \<open>transport.handleRequest(req, res, body)\<close>, from the call to the moment it has
  settled. The transport answers the request itself. When it accepts the request as its
  initialization and has no session id, it calls its generator, which is
  \<open>randomUUID\<close>, and returns the id to the caller; a GET it is handed opens the push
  channel.
\<close>

definition transportHandleRequest ::
  "env \<Rightarrow> state \<Rightarrow> nat \<Rightarrow> verb \<Rightarrow> json option \<Rightarrow> js_error option \<times> state" where
  "transportHandleRequest w s t v b =
     (let s1 = emit (HandleRequest t v b) s in
      case sdkHandleRequest w (trace s) t v b of
        Throws e \<Rightarrow> (Some e, s1)
      | Returns initialized \<Rightarrow>
          (let s2 =
             (if initialized \<and> sessionIdOf s1 t = None then
                (let (u, s') = nextUUID w s1 in
                 returnSessionId t u (s'\<lparr>sessionIdOf := (sessionIdOf s')(t := Some u)\<rparr>))
              else s1)
           in (None, if v = GET then openPush t s2 else s2)))"

text \<open>\<open>this.server.connect(transport)\<close>, from the call to the moment it has settled.\<close>

definition serverConnect :: "env \<Rightarrow> state \<Rightarrow> nat \<Rightarrow> js_error option \<times> state" where
  "serverConnect w s t = (sdkConnect w (trace s) t, emit (Connect t) s)"

section \<open>The push channel's first message\<close>

text \<open>
  \<open>MCPServer.sendNotification\<close>: the notification's own fields, then \<open>jsonrpc\<close>. The
  promise of \<open>transport.send\<close> is awaited inside \<open>sendNotification\<close> only, and
  \<open>streamMessages\<close> does not await \<open>sendNotification\<close>: a rejection of the send never
  reaches the caller.
\<close>

definition sendNotification :: "state \<Rightarrow> nat \<Rightarrow> (string \<times> json) list \<Rightarrow> state" where
  "sendNotification s t notification =
     emit (Send t (JObj (notification @ [(''jsonrpc'', JStr ''2.0'')]))) s"

definition streamMessages :: "state \<Rightarrow> nat \<Rightarrow> state" where
  "streamMessages s t =
     sendNotification s t
       [(''method'', JStr ''notifications/message''),
        (''params'', JObj [(''level'', JStr ''info''),
                           (''data'', JStr ''SSE Connection established'')])]"

section \<open>The two HTTP operations\<close>

text \<open>
  \<open>MCPServer.handleGetRequest\<close>, run from its start to its end with nothing in
  between. The result is the rejection of the returned promise, if any, and the state
  afterwards. Calling \<open>handleRequest\<close> on an inherited property (a function or object
  of \<open>Object.prototype\<close>) is a \<open>TypeError\<close>.
\<close>

definition handleGetRequest :: "env \<Rightarrow> state \<Rightarrow> request \<Rightarrow> js_error option \<times> state" where
  "handleGetRequest w s req =
     (let sessionId = sessionHeader req in
      if \<not> truthy sessionId \<or> getTransport s (the sessionId) = Undefined then
        (None, respondError w s 400 ''Bad Request: invalid session ID or method.'')
      else
        (case getTransport s (the sessionId) of
           Own transport \<Rightarrow>
             (case transportHandleRequest w s transport GET None of
                (Some e, s1) \<Rightarrow> (Some e, s1)
              | (None, s1) \<Rightarrow> (None, streamMessages s1 transport))
         | _ \<Rightarrow> (Some (TypeError ''transport.handleRequest is not a function''), s)))"

text \<open>
  The \<open>try\<close> block of \<open>MCPServer.handlePostRequest\<close>: what it throws, if anything.
  The session id a new transport reports is a value of \<open>randomUUID\<close>, 36 characters
  long, so the assignment \<open>this.transports[sessionId] = transport\<close> sets an own
  property (the key is never \<open>__proto__\<close>).
\<close>

definition postTry :: "env \<Rightarrow> state \<Rightarrow> request \<Rightarrow> js_error option \<times> state" where
  "postTry w s req =
     (let sessionId = sessionHeader req in
      if truthy sessionId \<and> getTransport s (the sessionId) \<noteq> Undefined then
        (case getTransport s (the sessionId) of
           Own transport \<Rightarrow> transportHandleRequest w s transport POST (Some (body req))
         | _ \<Rightarrow> (Some (TypeError ''transport.handleRequest is not a function''), s))
      else if \<not> truthy sessionId \<and> isInitializeRequest (safeParseInitialize w) (body req) then
        (let (transport, s1) = newTransport s in
         case serverConnect w s1 transport of
           (Some e, s2) \<Rightarrow> (Some e, s2)
         | (None, s2) \<Rightarrow>
             (case transportHandleRequest w s2 transport POST (Some (body req)) of
                (Some e, s3) \<Rightarrow> (Some e, s3)
              | (None, s3) \<Rightarrow>
                  (if truthy (sessionIdOf s3 transport) then
                     (None, s3\<lparr>transports :=
                                 (transports s3)(the (sessionIdOf s3 transport) \<mapsto> transport)\<rparr>)
                   else (None, s3))))
      else (None, respondError w s 400 ''Bad Request: invalid session ID or method.''))"

text \<open>\<open>MCPServer.handlePostRequest\<close>: the \<open>catch\<close> turns every throw into a 500.\<close>

definition handlePostRequest :: "env \<Rightarrow> state \<Rightarrow> request \<Rightarrow> js_error option \<times> state" where
  "handlePostRequest w s req =
     (case postTry w s req of
        (Some e, s1) \<Rightarrow> (None, respondError w s1 500 ''Internal server error.'')
      | (None, s1) \<Rightarrow> (None, s1))"

section \<open>Shutdown\<close>

text \<open>\<open>MCPServer.cleanup\<close>: \<open>this.toolInterval?.close()\<close>, then \<open>await this.server.close()\<close>.\<close>

definition cleanup :: "env \<Rightarrow> state \<Rightarrow> js_error option \<times> state" where
  "cleanup w s =
     (let s1 = (case toolInterval s of None \<Rightarrow> s | Some i \<Rightarrow> emit (IntervalClose i) s) in
      (sdkClose w (trace s1), emit ServerClose s1))"

text \<open>The \<open>SIGINT\<close> handler: \<open>await server.cleanup(); process.exit(0)\<close>.\<close>

definition onSIGINT :: "env \<Rightarrow> state \<Rightarrow> js_error option \<times> state" where
  "onSIGINT w s =
     (case cleanup w s of
        (Some e, s1) \<Rightarrow> (Some e, s1)
      | (None, s1) \<Rightarrow> (None, emit (ProcessExit 0) s1))"

section \<open>Tools\<close>

text \<open>The handlers \<open>setupTools\<close> registers for \<open>tools/list\<close> and \<open>tools/call\<close>.\<close>

definition listTools :: json where
  "listTools = JObj [(''tools'', JArr [])]"

record callToolParams =
  params_name :: string
  params_arguments :: "(string \<times> json) list option"

definition callTool :: "callToolParams \<Rightarrow> js_error + json" where
  "callTool p =
     (if params_arguments p = None then Inl (Error ''arguments undefined'')
      else if params_name p = [] then Inl (Error ''tool name undefined'')
      else Inl (Error ''Tool not found''))"


text \<open>The names of the tools a \<open>tools/list\<close> result offers.\<close>

definition jsonField :: "string \<Rightarrow> json \<Rightarrow> json option" where
  "jsonField k j = (case j of JObj fs \<Rightarrow> map_of fs k | _ \<Rightarrow> None)"

definition toolName :: "json \<Rightarrow> string option" where
  "toolName t = (case jsonField ''name'' t of Some (JStr n) \<Rightarrow> Some n | _ \<Rightarrow> None)"

definition toolNames :: "json \<Rightarrow> string list" where
  "toolNames r =
     (case jsonField ''tools'' r of Some (JArr ts) \<Rightarrow> List.map_filter toolName ts | _ \<Rightarrow> [])"

text \<open>The \<open>message\<close> of a thrown value.\<close>

definition errorMessage :: "js_error \<Rightarrow> string" where
  "errorMessage e = (case e of Error m \<Rightarrow> m | TypeError m \<Rightarrow> m | SdkError m \<Rightarrow> m)"

text \<open>
  Modelled from the spec: the caller of the \<open>tools/call\<close> handler, which is the SDK's
  request dispatcher and not part of the sources. By section 7 of the specification an
  error thrown on the dispatch path is converted to an error envelope by the caller and
  stays local to the single request; by section 3 a response carries the id of its
  request and either a result or an error object \<open>{code, message}\<close>. The code the
  dispatcher gives a thrown error is the parameter \<open>code\<close>.
\<close>

definition dispatch :: "int \<Rightarrow> json \<Rightarrow> callToolParams \<Rightarrow> json" where
  "dispatch code requestId p =
     (case callTool p of
        Inl e \<Rightarrow>
          JObj [(''jsonrpc'', JStr ''2.0''), (''id'', requestId),
                (''error'', JObj [(''code'', JNum code), (''message'', JStr (errorMessage e))])]
      | Inr r \<Rightarrow> JObj [(''jsonrpc'', JStr ''2.0''), (''id'', requestId), (''result'', r)])"

section \<open>The handlers between their awaits\<close>

text \<open>
  The definitions above run a handler from its start to its end. Here each handler is
  cut at its \<open>await\<close>s. \<open>beginGet\<close>, \<open>beginPost\<close> and \<open>beginSigint\<close> run a handler
  from its start to its first \<open>await\<close> (or to its end, if it reaches none) and leave it
  suspended; \<open>continue\<close> runs a suspended handler from the \<open>await\<close> it waits at to its
  next \<open>await\<close> or its end. An awaited call is made where the source makes it; what it
  settles with is fixed when it is made.
\<close>

definition suspend :: "pending \<Rightarrow> state \<Rightarrow> state" where
  "suspend p s = s\<lparr>pending := pending s @ [p]\<rparr>"

text \<open>
  \<open>handleGetRequest\<close> up to \<open>await transport.handleRequest(req, res)\<close>. A
  \<open>TypeError\<close> ends the handler: its promise rejects and nothing else happens.
\<close>

definition beginGet :: "env \<Rightarrow> state \<Rightarrow> request \<Rightarrow> state" where
  "beginGet w s req =
     (let sessionId = sessionHeader req in
      if \<not> truthy sessionId \<or> getTransport s (the sessionId) = Undefined then
        respondError w s 400 ''Bad Request: invalid session ID or method.''
      else
        (case getTransport s (the sessionId) of
           Own transport \<Rightarrow>
             (case transportHandleRequest w s transport GET None of
                (settled, s1) \<Rightarrow> suspend (AwaitGetHandle transport settled) s1)
         | _ \<Rightarrow> s))"

text \<open>
  \<open>handlePostRequest\<close> up to its first \<open>await\<close>: on a registered transport
  \<open>await transport.handleRequest(req, res, req.body)\<close>, for a new transport
  \<open>await this.server.connect(transport)\<close>. The \<open>TypeError\<close> is thrown inside the
  \<open>try\<close> block and caught at once.
\<close>

definition beginPost :: "env \<Rightarrow> state \<Rightarrow> request \<Rightarrow> state" where
  "beginPost w s req =
     (let sessionId = sessionHeader req in
      if truthy sessionId \<and> getTransport s (the sessionId) \<noteq> Undefined then
        (case getTransport s (the sessionId) of
           Own transport \<Rightarrow>
             (case transportHandleRequest w s transport POST (Some (body req)) of
                (settled, s1) \<Rightarrow> suspend (AwaitPostHandle transport settled) s1)
         | _ \<Rightarrow> respondError w s 500 ''Internal server error.'')
      else if \<not> truthy sessionId \<and> isInitializeRequest (safeParseInitialize w) (body req) then
        (let (transport, s1) = newTransport s in
         case serverConnect w s1 transport of
           (settled, s2) \<Rightarrow> suspend (AwaitConnect transport req settled) s2)
      else respondError w s 400 ''Bad Request: invalid session ID or method.'')"

text \<open>The \<open>SIGINT\<close> handler up to \<open>await this.server.close()\<close> inside \<open>cleanup\<close>.\<close>

definition beginSigint :: "env \<Rightarrow> state \<Rightarrow> state" where
  "beginSigint w s = (case cleanup w s of (settled, s1) \<Rightarrow> suspend (AwaitServerClose settled) s1)"

text \<open>
  A suspended handler goes on. After \<open>await transport.handleRequest(req, res)\<close> the GET
  handler calls \<open>streamMessages\<close>, or ends if the call rejected. Inside the \<open>try\<close>
  block of the POST handler a rejected call is caught and answered with status 500;
  after \<open>connect\<close> the handler calls \<open>transport.handleRequest\<close> and is suspended
  again; after that call it reads \<open>transport.sessionId\<close> and registers the transport.
  After \<open>server.close()\<close> the \<open>SIGINT\<close> handler exits the process, unless the call
  rejected.
\<close>

definition continue :: "env \<Rightarrow> pending \<Rightarrow> state \<Rightarrow> state" where
  "continue w p s =
     (case p of
        AwaitGetHandle transport settled \<Rightarrow>
          (case settled of Some e \<Rightarrow> s | None \<Rightarrow> streamMessages s transport)
      | AwaitPostHandle transport settled \<Rightarrow>
          (case settled of
             Some e \<Rightarrow> respondError w s 500 ''Internal server error.''
           | None \<Rightarrow> s)
      | AwaitConnect transport req settled \<Rightarrow>
          (case settled of
             Some e \<Rightarrow> respondError w s 500 ''Internal server error.''
           | None \<Rightarrow>
               (case transportHandleRequest w s transport POST (Some (body req)) of
                  (settled', s1) \<Rightarrow> suspend (AwaitNewHandle transport settled') s1))
      | AwaitNewHandle transport settled \<Rightarrow>
          (case settled of
             Some e \<Rightarrow> respondError w s 500 ''Internal server error.''
           | None \<Rightarrow>
               (if truthy (sessionIdOf s transport) then
                  s\<lparr>transports := (transports s)(the (sessionIdOf s transport) \<mapsto> transport)\<rparr>
                else s))
      | AwaitServerClose settled \<Rightarrow>
          (case settled of Some e \<Rightarrow> s | None \<Rightarrow> emit (ProcessExit 0) s))"

text \<open>The \<open>k\<close>-th suspended handler goes on; nothing happens if there is none.\<close>

definition resume :: "env \<Rightarrow> state \<Rightarrow> nat \<Rightarrow> state" where
  "resume w s k =
     (if k < length (pending s) then
        continue w (pending s ! k) (s\<lparr>pending := take k (pending s) @ drop (Suc k) (pending s)\<rparr>)
      else s)"

section \<open>Runs of the server\<close>

text \<open>
  What happens to the server, one step at a time: a POST or a GET on \<open>/mcp\<close> or the
  \<open>SIGINT\<close> signal arrives and its handler starts (\<open>PostBegin\<close>, \<open>GetBegin\<close>,
  \<open>SigintBegin\<close>); a suspended handler goes on (\<open>Resume\<close>); a push channel ends
  (\<open>ChannelClosed\<close>). \<open>Post\<close>, \<open>Get\<close> and \<open>Sigint\<close> are the handlers run from
  start to end with nothing in between. A run is any sequence of these steps, so the
  handlers interleave at their \<open>await\<close>s in every possible way. A run does not end
  with \<open>process.exit\<close>: the runs include those in which steps follow it, so what holds
  in every run holds in the runs that end there.
\<close>

datatype call =
    Post request
  | Get request
  | Sigint
  | PostBegin request
  | GetBegin request
  | SigintBegin
  | Resume nat
  | ChannelClosed nat

fun step :: "env \<Rightarrow> state \<Rightarrow> call \<Rightarrow> state" where
  "step w s (Post r) = snd (handlePostRequest w s r)"
| "step w s (Get r) = snd (handleGetRequest w s r)"
| "step w s Sigint = snd (onSIGINT w s)"
| "step w s (PostBegin r) = beginPost w s r"
| "step w s (GetBegin r) = beginGet w s r"
| "step w s SigintBegin = beginSigint w s"
| "step w s (Resume k) = resume w s k"
| "step w s (ChannelClosed t) = closePush t s"

definition run :: "env \<Rightarrow> state \<Rightarrow> call list \<Rightarrow> state" where
  "run w s cs = foldl (step w) s cs"

text \<open>The suspended handler at position \<open>n\<close> goes on, if there is one.\<close>

definition settle :: "env \<Rightarrow> nat \<Rightarrow> state \<Rightarrow> state" where
  "settle w n s = (if n < length (pending s) then resume w s n else s)"

section \<open>Properties stated over the model\<close>

text \<open>The new transport a suspended POST handler holds, if it holds one.\<close>

definition newTransportOf :: "pending \<Rightarrow> nat option" where
  "newTransportOf p =
     (case p of AwaitConnect t req settled \<Rightarrow> Some t | AwaitNewHandle t settled \<Rightarrow> Some t
      | _ \<Rightarrow> None)"

text \<open>
  The registry's invariant: the session id of a registered transport is the key it is
  registered under; a transport that has a session id has been allocated, its id was
  produced by an earlier call of \<open>randomUUID\<close> and was returned to the caller; and the
  new transport of a suspended handler has been allocated.
\<close>

definition registryInv :: "env \<Rightarrow> state \<Rightarrow> bool" where
  "registryInv w s =
     ((\<forall>sid t. transports s sid = Some t \<longrightarrow> sessionIdOf s t = Some sid) \<and>
      (\<forall>t u. sessionIdOf s t = Some u \<longrightarrow>
         t < allocated s \<and> (\<exists>i<uuids s. u = randomUUID (entropy w i)) \<and>
         (t, SessionId u) \<in> set (answers s)) \<and>
      (\<forall>p\<in>set (pending s). \<forall>t. newTransportOf p = Some t \<longrightarrow> t < allocated s))"

text \<open>No two transports have the same session id.\<close>

definition distinctIds :: "state \<Rightarrow> bool" where
  "distinctIds s =
     (\<forall>t t' u. sessionIdOf s t = Some u \<longrightarrow> sessionIdOf s t' = Some u \<longrightarrow> t = t')"

text \<open>
  The two envelope shapes as the specification writes them, for comparison with what
  the code builds: the error envelope (field order as given there) and the informational
  notification.
\<close>

definition errorEnvelope :: "string \<Rightarrow> string \<Rightarrow> json" where
  "errorEnvelope message token =
     JObj [(''jsonrpc'', JStr ''2.0''),
           (''error'', JObj [(''code'', JNum (- 32000)), (''message'', JStr message)]),
           (''id'', JStr token)]"

definition infoNotification :: "string \<Rightarrow> json" where
  "infoNotification text =
     JObj [(''jsonrpc'', JStr ''2.0''),
           (''method'', JStr ''notifications/message''),
           (''params'', JObj [(''level'', JStr ''info''), (''data'', JStr text)])]"

text \<open>Two JSON objects with the same fields, whatever the order they are written in.\<close>

definition sameObject :: "json \<Rightarrow> json \<Rightarrow> bool" where
  "sameObject a b =
     (case (a, b) of
        (JObj fs, JObj gs) \<Rightarrow>
          distinct (map fst fs) \<and> distinct (map fst gs) \<and> set fs = set gs
      | _ \<Rightarrow> False)"

text \<open>
  What the server writes and sends by itself: a response is one of its two error
  envelopes with a generated id, a message sent on a transport is the informational
  notification. \<open>n\<close> bounds the \<open>randomUUID\<close> calls made so far.
\<close>

definition ownEvent :: "env \<Rightarrow> nat \<Rightarrow> event \<Rightarrow> bool" where
  "ownEvent w n e =
     (case e of
        Respond c b \<Rightarrow>
          (\<exists>i<n. c = 400 \<and>
                  b = errorEnvelope ''Bad Request: invalid session ID or method.''
                        (randomUUID (entropy w i)) \<or>
                  c = 500 \<and>
                  b = errorEnvelope ''Internal server error.'' (randomUUID (entropy w i)))
      | Send t m \<Rightarrow> sameObject m (infoNotification ''SSE Connection established'')
      | _ \<Rightarrow> True)"

definition ownTrace :: "env \<Rightarrow> state \<Rightarrow> bool" where
  "ownTrace w s = (\<forall>e\<in>set (trace s). ownEvent w (uuids s) e)"


text \<open>
  On the path that creates a transport: the SDK server's \<open>connect\<close> does not reject
  and the new transport takes the request as its initialization.
\<close>

definition accepted :: "env \<Rightarrow> state \<Rightarrow> request \<Rightarrow> bool" where
  "accepted w s req =
     (sdkConnect w (trace s) (allocated s) = None \<and>
      sdkHandleRequest w (trace s @ [Connect (allocated s)]) (allocated s) POST
        (Some (body req)) = Returns True)"

text \<open>
  One state follows another, when the first satisfies the invariant: the invariant is
  kept, the counters only grow, the trace only grows and by events the server writes and
  sends as described, no key leaves the registry, a session id once set stays, and, when
  the ids generated so far are pairwise distinct, no two transports share an id and every
  registry entry is kept.
\<close>

definition advances :: "env \<Rightarrow> state \<Rightarrow> state \<Rightarrow> bool" where
  "advances w s s' =
     (registryInv w s \<longrightarrow>
        registryInv w s' \<and>
        uuids s \<le> uuids s' \<and> allocated s \<le> allocated s' \<and>
        toolInterval s' = toolInterval s \<and>
        dom (transports s) \<subseteq> dom (transports s') \<and>
        (\<exists>new. trace s' = trace s @ new \<and> (\<forall>e\<in>set new. ownEvent w (uuids s') e)) \<and>
        (\<forall>t u. sessionIdOf s t = Some u \<longrightarrow> sessionIdOf s' t = Some u) \<and>
        (distinctIds s \<longrightarrow> inj_on (\<lambda>i. randomUUID (entropy w i)) {..<uuids s'} \<longrightarrow>
           distinctIds s' \<and>
           (\<forall>sid t. transports s sid = Some t \<longrightarrow> transports s' sid = Some t)))"

section \<open>Concrete surroundings and requests\<close>

text \<open>
  An environment to evaluate the handlers in. Its schema accepts an object whose
  \<open>method\<close> is \<open>initialize\<close>; its transport accepts a single initialize request sent
  by POST as its initialization and declines a batch of two or more messages (the SDK
  answers such a batch with "Only one initialization request is allowed" and takes no
  session id); no call into the SDK rejects; the \<open>k\<close>-th \<open>randomUUID\<close> call draws
  the number \<open>k\<close> for every digit.
\<close>

definition hasMethod :: "string \<Rightarrow> json \<Rightarrow> bool" where
  "hasMethod m j =
     (case j of JObj fs \<Rightarrow> map_of fs ''method'' = Some (JStr m) | _ \<Rightarrow> False)"

definition sampleEnv :: env where
  "sampleEnv =
     \<lparr>safeParseInitialize = hasMethod ''initialize'',
      sdkConnect = (\<lambda>_ _. None),
      sdkHandleRequest =
        (\<lambda>_ _ v b. case b of
            Some (JArr (x # y # zs)) \<Rightarrow> Returns False
          | Some j \<Rightarrow> Returns (v = POST \<and> isInitializeRequest (hasMethod ''initialize'') j)
          | None \<Rightarrow> Returns False),
      sdkClose = (\<lambda>_. None),
      entropy = (\<lambda>k i. k)\<rparr>"

text \<open>The same surroundings with a generator that draws the same bits at every call.\<close>

definition repeatingEnv :: env where
  "repeatingEnv = sampleEnv\<lparr>entropy := (\<lambda>k i. 0)\<rparr>"

definition initializeBody :: json where
  "initializeBody =
     JObj [(''jsonrpc'', JStr ''2.0''), (''id'', JNum 1), (''method'', JStr ''initialize''),
           (''params'',
            JObj [(''protocolVersion'', JStr ''2025-03-26''),
                  (''capabilities'', JObj []),
                  (''clientInfo'',
                   JObj [(''name'', JStr ''mcp-client''), (''version'', JStr ''1.0.0'')])])]"

definition initializeRequest :: request where
  "initializeRequest = \<lparr>sessionHeader = None, body = initializeBody\<rparr>"

definition firstSession :: string where
  "firstSession = ''00000000-0000-4000-8000-000000000000''"

definition secondSession :: string where
  "secondSession = ''11111111-1111-4111-9111-111111111111''"

definition openRequest :: request where
  "openRequest = \<lparr>sessionHeader = Some firstSession, body = JObj []\<rparr>"

definition oneSession :: state where
  "oneSession = run sampleEnv initialState [Post initializeRequest]"

definition twoSessions :: state where
  "twoSessions = run sampleEnv initialState [Post initializeRequest, Post initializeRequest]"

section \<open>Basic facts\<close>

lemma some_iff: "some f xs = (\<exists>x\<in>set xs. f x)"
  by (induction xs) auto

lemma length_uuidDigits: "length (uuidDigits r) = 32"
  by (simp add: uuidDigits_def)

lemma length_randomUUID: "length (randomUUID r) = 36"
  by (simp add: randomUUID_def Let_def length_uuidDigits)

lemma randomUUID_nonempty: "randomUUID r \<noteq> []"
  using length_randomUUID [of r] by auto

lemma randomUUID_not_inherited: "randomUUID r \<notin> set objectPrototypeKeys"
  using length_randomUUID [of r] by (auto simp: objectPrototypeKeys_def)

lemma truthy_simps [simp]: "truthy None = False" "truthy (Some v) = (v \<noteq> [])"
  by (simp_all add: truthy_def)

lemma emit_fields [simp]:
  "transports (emit e s) = transports s" "sessionIdOf (emit e s) = sessionIdOf s"
  "allocated (emit e s) = allocated s" "toolInterval (emit e s) = toolInterval s"
  "uuids (emit e s) = uuids s" "trace (emit e s) = trace s @ [e]"
  "pending (emit e s) = pending s" "pushChannel (emit e s) = pushChannel s"
  "answers (emit e s) = answers s"
  by (simp_all add: emit_def)

lemma suspend_fields [simp]:
  "transports (suspend p s) = transports s" "sessionIdOf (suspend p s) = sessionIdOf s"
  "allocated (suspend p s) = allocated s" "toolInterval (suspend p s) = toolInterval s"
  "uuids (suspend p s) = uuids s" "trace (suspend p s) = trace s"
  "pending (suspend p s) = pending s @ [p]" "pushChannel (suspend p s) = pushChannel s"
  "answers (suspend p s) = answers s"
  by (simp_all add: suspend_def)

lemma closePush_fields [simp]:
  "transports (closePush t s) = transports s" "sessionIdOf (closePush t s) = sessionIdOf s"
  "allocated (closePush t s) = allocated s" "toolInterval (closePush t s) = toolInterval s"
  "uuids (closePush t s) = uuids s" "trace (closePush t s) = trace s"
  "pending (closePush t s) = pending s"
  "pushChannel (closePush t s) = (pushChannel s)(t := False)"
  "answers (closePush t s) = answers s"
  by (simp_all add: closePush_def)

lemma respondError_fields [simp]:
  "transports (respondError w s n m) = transports s"
  "sessionIdOf (respondError w s n m) = sessionIdOf s"
  "allocated (respondError w s n m) = allocated s"
  "toolInterval (respondError w s n m) = toolInterval s"
  "uuids (respondError w s n m) = Suc (uuids s)"
  "trace (respondError w s n m) =
     trace s @ [Respond n (errorEnvelope m (randomUUID (entropy w (uuids s))))]"
  "pending (respondError w s n m) = pending s"
  "pushChannel (respondError w s n m) = pushChannel s"
  "answers (respondError w s n m) = answers s"
  by (simp_all add: respondError_def createErrorResponse_def nextUUID_def emit_def
      errorEnvelope_def)

lemma streamMessages_fields [simp]:
  "transports (streamMessages s t) = transports s"
  "sessionIdOf (streamMessages s t) = sessionIdOf s"
  "allocated (streamMessages s t) = allocated s"
  "toolInterval (streamMessages s t) = toolInterval s"
  "uuids (streamMessages s t) = uuids s"
  "trace (streamMessages s t) =
     trace s @ [Send t (JObj [(''method'', JStr ''notifications/message''),
           (''params'', JObj [(''level'', JStr ''info''),
                              (''data'', JStr ''SSE Connection established'')]),
           (''jsonrpc'', JStr ''2.0'')])]"
  "pending (streamMessages s t) = pending s"
  "pushChannel (streamMessages s t) = pushChannel s"
  "answers (streamMessages s t) = answers s"
  by (simp_all add: streamMessages_def sendNotification_def emit_def)

lemma newTransport_fields [simp]:
  "fst (newTransport s) = allocated s"
  "transports (snd (newTransport s)) = transports s"
  "sessionIdOf (snd (newTransport s)) = (sessionIdOf s)(allocated s := None)"
  "allocated (snd (newTransport s)) = Suc (allocated s)"
  "toolInterval (snd (newTransport s)) = toolInterval s"
  "uuids (snd (newTransport s)) = uuids s" "trace (snd (newTransport s)) = trace s"
  "pending (snd (newTransport s)) = pending s"
  "pushChannel (snd (newTransport s)) = pushChannel s"
  "answers (snd (newTransport s)) = answers s"
  by (simp_all add: newTransport_def)

lemma serverConnect_fields [simp]:
  "fst (serverConnect w s t) = sdkConnect w (trace s) t"
  "snd (serverConnect w s t) = emit (Connect t) s"
  by (simp_all add: serverConnect_def)

lemma cleanup_fields [simp]:
  "fst (cleanup w s) =
     sdkClose w (trace s @ (case toolInterval s of None \<Rightarrow> [] | Some i \<Rightarrow> [IntervalClose i]))"
  "transports (snd (cleanup w s)) = transports s"
  "sessionIdOf (snd (cleanup w s)) = sessionIdOf s"
  "allocated (snd (cleanup w s)) = allocated s"
  "toolInterval (snd (cleanup w s)) = toolInterval s"
  "uuids (snd (cleanup w s)) = uuids s"
  "trace (snd (cleanup w s)) =
     trace s @ (case toolInterval s of None \<Rightarrow> [] | Some i \<Rightarrow> [IntervalClose i]) @ [ServerClose]"
  "pending (snd (cleanup w s)) = pending s"
  "pushChannel (snd (cleanup w s)) = pushChannel s"
  "answers (snd (cleanup w s)) = answers s"
  by (simp_all add: cleanup_def emit_def Let_def split: option.split)

text \<open>The transport takes its session id in this call.\<close>

lemma handle_fst:
  "fst (transportHandleRequest w s t v b) =
     (case sdkHandleRequest w (trace s) t v b of Throws e \<Rightarrow> Some e | Returns i \<Rightarrow> None)"
  by (simp add: transportHandleRequest_def Let_def split: handled.split)

lemma handle_fields [simp]:
  "transports (snd (transportHandleRequest w s t v b)) = transports s"
  "allocated (snd (transportHandleRequest w s t v b)) = allocated s"
  "toolInterval (snd (transportHandleRequest w s t v b)) = toolInterval s"
  "trace (snd (transportHandleRequest w s t v b)) = trace s @ [HandleRequest t v b]"
  "pending (snd (transportHandleRequest w s t v b)) = pending s"
  by (simp_all add: transportHandleRequest_def Let_def nextUUID_def returnSessionId_def
      openPush_def emit_def split: handled.split)

lemma handle_ids:
  "sessionIdOf (snd (transportHandleRequest w s t v b)) =
     (if sdkHandleRequest w (trace s) t v b = Returns True \<and> sessionIdOf s t = None
      then (sessionIdOf s)(t \<mapsto> randomUUID (entropy w (uuids s))) else sessionIdOf s)"
  "uuids (snd (transportHandleRequest w s t v b)) =
     (if sdkHandleRequest w (trace s) t v b = Returns True \<and> sessionIdOf s t = None
      then Suc (uuids s) else uuids s)"
  by (auto simp: transportHandleRequest_def Let_def nextUUID_def returnSessionId_def
      openPush_def emit_def split: handled.split)

lemma handle_answers:
  "answers (snd (transportHandleRequest w s t v b)) =
     answers s @
     (if sdkHandleRequest w (trace s) t v b = Returns True \<and> sessionIdOf s t = None
      then [(t, SessionId (randomUUID (entropy w (uuids s))))] else []) @
     (if v = GET \<and> (\<exists>i. sdkHandleRequest w (trace s) t v b = Returns i)
      then [(t, if pushChannel s t then AlreadyOpen else PushOpened)] else [])"
  "pushChannel (snd (transportHandleRequest w s t v b)) =
     (if v = GET \<and> (\<exists>i. sdkHandleRequest w (trace s) t v b = Returns i)
      then (pushChannel s)(t := True) else pushChannel s)"
  by (auto simp: transportHandleRequest_def Let_def nextUUID_def returnSessionId_def
      openPush_def emit_def fun_eq_iff split: handled.split)

section \<open>One state follows another\<close>

lemma ownEvent_mono: "ownEvent w n e \<Longrightarrow> n \<le> n' \<Longrightarrow> ownEvent w n' e"
  unfolding ownEvent_def
  by (cases e) (auto intro: less_le_trans)

lemma ownEvent_simps [simp]:
  "ownEvent w n (Connect t)" "ownEvent w n (HandleRequest t v b)"
  "ownEvent w n (IntervalClose i)" "ownEvent w n ServerClose" "ownEvent w n (ProcessExit c)"
  by (simp_all add: ownEvent_def)

lemma ownEvent_Send:
  "ownEvent w n (Send t (JObj [(''method'', JStr ''notifications/message''),
           (''params'', JObj [(''level'', JStr ''info''),
                              (''data'', JStr ''SSE Connection established'')]),
           (''jsonrpc'', JStr ''2.0'')]))"
  by (auto simp: ownEvent_def sameObject_def infoNotification_def)

lemma ownEvent_Respond:
  "i < n \<Longrightarrow> c = 400 \<and> m = ''Bad Request: invalid session ID or method.'' \<or>
     c = 500 \<and> m = ''Internal server error.'' \<Longrightarrow>
   ownEvent w n (Respond c (errorEnvelope m (randomUUID (entropy w i))))"
  unfolding ownEvent_def by auto

lemma advances_refl: "advances w s s"
  by (simp add: advances_def)

lemma advances_cond: "(registryInv w s \<Longrightarrow> advances w s s') \<Longrightarrow> advances w s s'"
  by (auto simp: advances_def)

lemma advances_trans:
  assumes "advances w s s'" "advances w s' s''"
  shows "advances w s s''"
proof (rule advances_cond)
  assume inv: "registryInv w s"
  with assms(1) have inv': "registryInv w s'"
    unfolding advances_def by blast
  from assms inv inv' obtain n1 n2 where
    t1: "trace s' = trace s @ n1" "\<forall>e\<in>set n1. ownEvent w (uuids s') e" and
    t2: "trace s'' = trace s' @ n2" "\<forall>e\<in>set n2. ownEvent w (uuids s'') e"
    unfolding advances_def by blast
  have le: "uuids s \<le> uuids s'" "uuids s' \<le> uuids s''"
    using assms inv inv' unfolding advances_def by blast+
  have tr: "trace s'' = trace s @ (n1 @ n2)" "\<forall>e\<in>set (n1 @ n2). ownEvent w (uuids s'') e"
    using t1 t2 le by (auto intro: ownEvent_mono)
  have inj: "inj_on (\<lambda>i. randomUUID (entropy w i)) {..<uuids s'}"
    if "inj_on (\<lambda>i. randomUUID (entropy w i)) {..<uuids s''}"
    using that le by (auto intro: inj_on_subset)
  show ?thesis
    unfolding advances_def
  proof (intro conjI impI)
    show "registryInv w s''"
      using assms inv inv' unfolding advances_def by blast
    show "uuids s \<le> uuids s''" using le by simp
    show "allocated s \<le> allocated s''"
      using assms inv inv' unfolding advances_def by (meson le_trans)
    show "toolInterval s'' = toolInterval s"
      using assms inv inv' unfolding advances_def by simp
    show "dom (transports s) \<subseteq> dom (transports s'')"
      using assms inv inv' unfolding advances_def by blast
    show "\<exists>new. trace s'' = trace s @ new \<and> (\<forall>e\<in>set new. ownEvent w (uuids s'') e)"
      using tr by blast
    show "\<forall>t u. sessionIdOf s t = Some u \<longrightarrow> sessionIdOf s'' t = Some u"
      using assms inv inv' unfolding advances_def by blast
    show "distinctIds s''"
      if "distinctIds s" "inj_on (\<lambda>i. randomUUID (entropy w i)) {..<uuids s''}"
      using assms that inj [OF that(2)] inv inv' unfolding advances_def by blast
    show "\<forall>sid t. transports s sid = Some t \<longrightarrow> transports s'' sid = Some t"
      if "distinctIds s" "inj_on (\<lambda>i. randomUUID (entropy w i)) {..<uuids s''}"
      using assms that inj [OF that(2)] inv inv' unfolding advances_def by blast
  qed
qed

lemma registryInv_pending:
  "registryInv w s \<Longrightarrow> p \<in> set (pending s) \<Longrightarrow> newTransportOf p = Some t \<Longrightarrow> t < allocated s"
  unfolding registryInv_def by blast

lemma advances_frame:
  assumes "transports s' = transports s" "sessionIdOf s' = sessionIdOf s"
    and "allocated s \<le> allocated s'" "uuids s \<le> uuids s'"
    and "toolInterval s' = toolInterval s" "set (answers s) \<subseteq> set (answers s')"
    and "trace s' = trace s @ new" "\<forall>e\<in>set new. ownEvent w (uuids s') e"
    and "set (pending s') \<subseteq> set (pending s) \<union> set extra"
    and "\<And>p t. registryInv w s \<Longrightarrow> p \<in> set extra \<Longrightarrow> newTransportOf p = Some t \<Longrightarrow>
           t < allocated s"
  shows "advances w s s'"
proof -
  have "registryInv w s'" if inv: "registryInv w s"
  proof -
    have "sessionIdOf s' t = Some sid" if "transports s' sid = Some t" for sid t
      using that inv assms(1,2) unfolding registryInv_def by simp
    moreover have "t < allocated s' \<and> (\<exists>i<uuids s'. u = randomUUID (entropy w i)) \<and>
        (t, SessionId u) \<in> set (answers s')" if "sessionIdOf s' t = Some u" for t u
    proof -
      from that have "sessionIdOf s t = Some u" using assms(2) by simp
      with inv obtain i where "t < allocated s" "i < uuids s"
        "u = randomUUID (entropy w i)" "(t, SessionId u) \<in> set (answers s)"
        unfolding registryInv_def by blast
      then show ?thesis
        using assms(3,4,6) by (auto intro: less_le_trans)
    qed
    moreover have "t < allocated s'" if "p \<in> set (pending s')" "newTransportOf p = Some t" for p t
    proof (cases "p \<in> set extra")
      case True
      show ?thesis using assms(10) [OF inv True that(2)] assms(3) by (rule less_le_trans)
    next
      case False
      with that(1) assms(9) have "p \<in> set (pending s)" by auto
      then show ?thesis using registryInv_pending [OF inv _ that(2)] assms(3)
        by (meson less_le_trans)
    qed
    ultimately show ?thesis
      unfolding registryInv_def by blast
  qed
  moreover have "distinctIds s'" if "distinctIds s"
    using that assms(2) unfolding distinctIds_def by simp
  ultimately show ?thesis
    using assms(1-8) unfolding advances_def by auto
qed

lemma advances_emit: "ownEvent w (uuids s) e \<Longrightarrow> advances w s (emit e s)"
  by (rule advances_frame [where new = "[e]" and extra = "[]"]) simp_all

lemma advances_respondError:
  assumes "c = 400 \<and> m = ''Bad Request: invalid session ID or method.'' \<or>
           c = 500 \<and> m = ''Internal server error.''"
  shows "advances w s (respondError w s c m)"
  by (rule advances_frame
      [where new = "[Respond c (errorEnvelope m (randomUUID (entropy w (uuids s))))]"
        and extra = "[]"])
    (use assms in \<open>simp_all add: ownEvent_Respond\<close>)

lemma advances_streamMessages: "advances w s (streamMessages s t)"
  by (rule advances_frame [where new = "[Send t (JObj [(''method'', JStr ''notifications/message''),
           (''params'', JObj [(''level'', JStr ''info''),
                              (''data'', JStr ''SSE Connection established'')]),
           (''jsonrpc'', JStr ''2.0'')])]" and extra = "[]"])
    (simp_all add: ownEvent_Send)

lemma advances_suspend:
  assumes "\<And>t. registryInv w s \<Longrightarrow> newTransportOf p = Some t \<Longrightarrow> t < allocated s"
  shows "advances w s (suspend p s)"
  by (rule advances_frame [where new = "[]" and extra = "[p]"]) (use assms in simp_all)

lemma advances_closePush: "advances w s (closePush t s)"
  by (rule advances_frame [where new = "[]" and extra = "[]"]) simp_all

lemma advances_pending:
  assumes "set ps \<subseteq> set (pending s)"
  shows "advances w s (s\<lparr>pending := ps\<rparr>)"
  by (rule advances_frame [where new = "[]" and extra = "[]"]) (use assms in simp_all)

lemma advances_cleanup: "advances w s (snd (cleanup w s))"
  by (rule advances_frame
      [where new = "(case toolInterval s of None \<Rightarrow> [] | Some i \<Rightarrow> [IntervalClose i]) @ [ServerClose]"
        and extra = "[]"])
    (auto simp: ownEvent_def split: option.split)

lemma registryInv_registered:
  "registryInv w s \<Longrightarrow> transports s sid = Some t \<Longrightarrow> sessionIdOf s t = Some sid"
  unfolding registryInv_def by blast

lemma registryInv_id:
  "registryInv w s \<Longrightarrow> sessionIdOf s t = Some u \<Longrightarrow>
     t < allocated s \<and> (\<exists>i<uuids s. u = randomUUID (entropy w i)) \<and>
     (t, SessionId u) \<in> set (answers s)"
  unfolding registryInv_def by blast

lemma registryInv_fresh:
  assumes "registryInv w s"
  shows "sessionIdOf s (allocated s) = None"
proof (cases "sessionIdOf s (allocated s)")
  case (Some u)
  from registryInv_id [OF assms Some] show ?thesis by simp
qed simp

lemma advances_handle:
  assumes "registryInv w s \<Longrightarrow> t < allocated s"
  shows "advances w s (snd (transportHandleRequest w s t v b))"
proof (cases "sdkHandleRequest w (trace s) t v b = Returns True \<and> sessionIdOf s t = None")
  case False
  show ?thesis
    by (rule advances_frame [where new = "[HandleRequest t v b]" and extra = "[]"])
      (use False in \<open>auto simp: handle_ids handle_answers\<close>)
next
  case True
  let ?s' = "snd (transportHandleRequest w s t v b)"
  let ?u = "randomUUID (entropy w (uuids s))"
  have ids: "sessionIdOf ?s' = (sessionIdOf s)(t \<mapsto> ?u)" and n: "uuids ?s' = Suc (uuids s)"
    and ans: "(t, SessionId ?u) \<in> set (answers ?s')" "set (answers s) \<subseteq> set (answers ?s')"
    using True by (auto simp: handle_ids handle_answers)
  show ?thesis
  proof (rule advances_cond)
    assume inv: "registryInv w s"
    have "sessionIdOf ?s' t' = Some sid" if "transports ?s' sid = Some t'" for sid t'
    proof -
      from that have "sessionIdOf s t' = Some sid"
        using registryInv_registered [OF inv] by simp
      with True show ?thesis
        by (auto simp: ids)
    qed
    moreover have "t' < allocated ?s' \<and> (\<exists>i<uuids ?s'. u = randomUUID (entropy w i)) \<and>
            (t', SessionId u) \<in> set (answers ?s')" if a: "sessionIdOf ?s' t' = Some u" for t' u
    proof (cases "t' = t")
      case True
      with a have "u = ?u" by (simp add: ids)
      with True assms [OF inv] ans(1) show ?thesis
        by (auto simp: n)
    next
      case False
      with a have "sessionIdOf s t' = Some u" by (simp add: ids)
      from registryInv_id [OF inv this] ans(2) show ?thesis
        by (auto simp: n intro: less_SucI)
    qed
    moreover have "t' < allocated ?s'" if "p \<in> set (pending ?s')" "newTransportOf p = Some t'"
      for p t'
      using that registryInv_pending [OF inv] by simp
    ultimately have "registryInv w ?s'"
      unfolding registryInv_def by blast
    moreover have "distinctIds ?s'"
      if d: "distinctIds s" and i: "inj_on (\<lambda>i. randomUUID (entropy w i)) {..<Suc (uuids s)}"
      unfolding distinctIds_def
    proof (intro allI impI)
      fix a b u assume a: "sessionIdOf ?s' a = Some u" and b: "sessionIdOf ?s' b = Some u"
      have new: "u \<noteq> ?u" if "sessionIdOf s c = Some u" for c
      proof
        assume "u = ?u"
        moreover from registryInv_id [OF inv that] obtain j where
          "j < uuids s" "u = randomUUID (entropy w j)" by blast
        ultimately show False
          using inj_onD [OF i, of j "uuids s"] by simp
      qed
      show "a = b"
      proof (cases "a = t")
        case at: True
        show ?thesis
        proof (cases "b = t")
          case True with at show ?thesis by simp
        next
          case False
          with a b at new [of b] show ?thesis by (simp add: ids)
        qed
      next
        case af: False
        show ?thesis
        proof (cases "b = t")
          case True
          with a b af new [of a] show ?thesis by (simp add: ids)
        next
          case False
          with a b af d show ?thesis by (simp add: ids distinctIds_def)
        qed
      qed
    qed
    moreover have "\<forall>t' u. sessionIdOf s t' = Some u \<longrightarrow> sessionIdOf ?s' t' = Some u"
      using True by (auto simp: ids)
    ultimately show ?thesis
      unfolding advances_def by (simp add: n ownEvent_simps)
  qed
qed

lemma advances_newTransport: "advances w s (snd (newTransport s))"
proof (rule advances_cond)
  assume inv: "registryInv w s"
  have same: "sessionIdOf (snd (newTransport s)) = sessionIdOf s"
    using registryInv_fresh [OF inv] by (auto simp: fun_eq_iff)
  show ?thesis
    by (rule advances_frame [where new = "[]" and extra = "[]"]) (simp_all add: same del: newTransport_fields(3))
qed

lemma advances_register:
  assumes "sessionIdOf s t = Some u"
  shows "advances w s (s\<lparr>transports := (transports s)(u \<mapsto> t)\<rparr>)"
proof (rule advances_cond)
  assume inv: "registryInv w s"
  have "registryInv w (s\<lparr>transports := (transports s)(u \<mapsto> t)\<rparr>)"
    using inv assms unfolding registryInv_def by simp
  moreover have "transports s sid = Some t' \<Longrightarrow> distinctIds s \<Longrightarrow> sid = u \<Longrightarrow> t' = t"
    for sid t'
    using registryInv_registered [OF inv, of sid t'] assms unfolding distinctIds_def by blast
  moreover have "distinctIds (s\<lparr>transports := (transports s)(u \<mapsto> t)\<rparr>) = distinctIds s"
    unfolding distinctIds_def by simp
  ultimately show ?thesis
    unfolding advances_def by auto
qed

section \<open>The handlers and their parts\<close>

lemma getTransport_Own: "getTransport s k = Own t \<longleftrightarrow> transports s k = Some t"
  by (auto simp: getTransport_def split: option.split)

lemma getTransport_Undefined:
  "getTransport s k = Undefined \<longleftrightarrow> transports s k = None \<and> k \<notin> set objectPrototypeKeys"
  by (auto simp: getTransport_def split: option.split)

lemma getTransport_Inherited:
  "getTransport s k = Inherited \<longleftrightarrow> transports s k = None \<and> k \<in> set objectPrototypeKeys"
  by (auto simp: getTransport_def split: option.split)

lemma beginGet_bad:
  "\<not> truthy (sessionHeader req) \<or> getTransport s (the (sessionHeader req)) = Undefined \<Longrightarrow>
   beginGet w s req = respondError w s 400 ''Bad Request: invalid session ID or method.''"
  by (auto simp: beginGet_def Let_def)

lemma beginGet_known:
  "truthy (sessionHeader req) \<Longrightarrow> getTransport s (the (sessionHeader req)) = Own t \<Longrightarrow>
   beginGet w s req =
     suspend (AwaitGetHandle t (fst (transportHandleRequest w s t GET None)))
       (snd (transportHandleRequest w s t GET None))"
  by (simp add: beginGet_def Let_def case_prod_beta)

lemma beginGet_inherited:
  "truthy (sessionHeader req) \<Longrightarrow> getTransport s (the (sessionHeader req)) = Inherited \<Longrightarrow>
   beginGet w s req = s"
  by (simp add: beginGet_def Let_def)

lemma beginPost_known:
  "truthy (sessionHeader req) \<Longrightarrow> getTransport s (the (sessionHeader req)) = Own t \<Longrightarrow>
   beginPost w s req =
     suspend (AwaitPostHandle t (fst (transportHandleRequest w s t POST (Some (body req)))))
       (snd (transportHandleRequest w s t POST (Some (body req))))"
  by (simp add: beginPost_def Let_def case_prod_beta)

lemma beginPost_inherited:
  "truthy (sessionHeader req) \<Longrightarrow> getTransport s (the (sessionHeader req)) = Inherited \<Longrightarrow>
   beginPost w s req = respondError w s 500 ''Internal server error.''"
  by (simp add: beginPost_def Let_def)

lemma beginPost_init:
  "\<not> truthy (sessionHeader req) \<Longrightarrow> isInitializeRequest (safeParseInitialize w) (body req) \<Longrightarrow>
   beginPost w s req =
     suspend (AwaitConnect (allocated s) req (sdkConnect w (trace s) (allocated s)))
       (emit (Connect (allocated s)) (snd (newTransport s)))"
  by (simp add: beginPost_def Let_def case_prod_beta serverConnect_def)

lemma beginPost_bad:
  "(truthy (sessionHeader req) \<and> getTransport s (the (sessionHeader req)) = Undefined) \<or>
   (\<not> truthy (sessionHeader req) \<and> \<not> isInitializeRequest (safeParseInitialize w) (body req)) \<Longrightarrow>
   beginPost w s req = respondError w s 400 ''Bad Request: invalid session ID or method.''"
  by (auto simp: beginPost_def Let_def)

lemma continue_simps:
  "continue w (AwaitGetHandle t None) s = streamMessages s t"
  "continue w (AwaitGetHandle t (Some e)) s = s"
  "continue w (AwaitPostHandle t None) s = s"
  "continue w (AwaitPostHandle t (Some e)) s = respondError w s 500 ''Internal server error.''"
  "continue w (AwaitConnect t req (Some e)) s = respondError w s 500 ''Internal server error.''"
  "continue w (AwaitConnect t req None) s =
     suspend (AwaitNewHandle t (fst (transportHandleRequest w s t POST (Some (body req)))))
       (snd (transportHandleRequest w s t POST (Some (body req))))"
  "continue w (AwaitNewHandle t (Some e)) s = respondError w s 500 ''Internal server error.''"
  "continue w (AwaitNewHandle t None) s =
     (if truthy (sessionIdOf s t) then s\<lparr>transports := (transports s)(the (sessionIdOf s t) \<mapsto> t)\<rparr>
      else s)"
  "continue w (AwaitServerClose None) s = emit (ProcessExit 0) s"
  "continue w (AwaitServerClose (Some e)) s = s"
  by (simp_all add: continue_def case_prod_beta)

lemma resume_suspend: "resume w (suspend p s) (length (pending s)) = continue w p s"
  by (simp add: resume_def suspend_def)

lemma settle_suspend: "settle w (length (pending s)) (suspend p s) = continue w p s"
  by (simp add: settle_def resume_suspend)

lemma settle_done: "length (pending s) \<le> n \<Longrightarrow> settle w n s = s"
  by (simp add: settle_def)

lemma handleGet_settle:
  "snd (handleGetRequest w s r) = settle w (length (pending s)) (beginGet w s r)"
proof (cases "\<not> truthy (sessionHeader r) \<or> getTransport s (the (sessionHeader r)) = Undefined")
  case True
  then show ?thesis
    by (auto simp: beginGet_bad settle_done handleGetRequest_def Let_def)
next
  case False
  show ?thesis
  proof (cases "getTransport s (the (sessionHeader r))")
    case (Own t)
    have "settle w (length (pending s)) (beginGet w s r) =
          continue w (AwaitGetHandle t (fst (transportHandleRequest w s t GET None)))
            (snd (transportHandleRequest w s t GET None))"
      using False Own settle_suspend [of w "snd (transportHandleRequest w s t GET None)"]
      by (simp add: beginGet_known)
    then show ?thesis
      using False Own
      by (cases "fst (transportHandleRequest w s t GET None)")
        (simp_all add: handleGetRequest_def Let_def case_prod_beta continue_simps
          split: option.split)
  next
    case Inherited
    with False show ?thesis
      by (simp add: beginGet_inherited settle_done handleGetRequest_def Let_def)
  next
    case Undefined
    with False show ?thesis by simp
  qed
qed

lemma sigint_settle: "snd (onSIGINT w s) = settle w (length (pending s)) (beginSigint w s)"
  using settle_suspend [of w "snd (cleanup w s)"]
  by (cases "sdkClose w (trace s @ (case toolInterval s of None \<Rightarrow> [] | Some i \<Rightarrow> [IntervalClose i]))")
    (simp_all add: onSIGINT_def beginSigint_def case_prod_beta continue_simps
      split: option.split)

lemma handlePost_settle:
  "snd (handlePostRequest w s r) =
     settle w (length (pending s)) (settle w (length (pending s)) (beginPost w s r))"
proof -
  let ?n = "length (pending s)"
  consider
      (known) t where "truthy (sessionHeader r)" "getTransport s (the (sessionHeader r)) = Own t"
    | (inherited) "truthy (sessionHeader r)" "getTransport s (the (sessionHeader r)) = Inherited"
    | (init) "\<not> truthy (sessionHeader r)" "isInitializeRequest (safeParseInitialize w) (body r)"
    | (bad) "(truthy (sessionHeader r) \<and> getTransport s (the (sessionHeader r)) = Undefined) \<or>
        (\<not> truthy (sessionHeader r) \<and> \<not> isInitializeRequest (safeParseInitialize w) (body r))"
    by (cases "getTransport s (the (sessionHeader r))") auto
  then show ?thesis
  proof cases
    case known
    let ?h = "transportHandleRequest w s t POST (Some (body r))"
    have "settle w ?n (beginPost w s r) = continue w (AwaitPostHandle t (fst ?h)) (snd ?h)"
      using known settle_suspend [of w "snd ?h"] by (simp add: beginPost_known)
    then show ?thesis
      using known
      by (cases "fst ?h")
        (simp_all add: handlePostRequest_def postTry_def Let_def case_prod_beta continue_simps
          settle_done split: option.split)
  next
    case inherited
    then show ?thesis
      by (simp add: beginPost_inherited settle_done handlePostRequest_def postTry_def Let_def)
  next
    case bad
    then show ?thesis
      by (auto simp: beginPost_bad settle_done handlePostRequest_def postTry_def Let_def)
  next
    case init
    let ?t = "allocated s"
    let ?s2 = "emit (Connect ?t) (snd (newTransport s))"
    let ?h = "transportHandleRequest w ?s2 ?t POST (Some (body r))"
    have one: "settle w ?n (beginPost w s r) =
               continue w (AwaitConnect ?t r (sdkConnect w (trace s) ?t)) ?s2"
      using init settle_suspend [of w ?s2] by (simp add: beginPost_init)
    have pt: "postTry w s r =
       (case sdkConnect w (trace s) ?t of
          Some e \<Rightarrow> (Some e, ?s2)
        | None \<Rightarrow>
            (case fst ?h of
               Some e \<Rightarrow> (Some e, snd ?h)
             | None \<Rightarrow>
                 (if truthy (sessionIdOf (snd ?h) ?t) then
                    (None, (snd ?h)\<lparr>transports :=
                       (transports (snd ?h))(the (sessionIdOf (snd ?h) ?t) \<mapsto> ?t)\<rparr>)
                  else (None, snd ?h))))"
      using init
      by (simp add: postTry_def Let_def case_prod_beta serverConnect_def newTransport_def
          split: option.split)
    show ?thesis
    proof (cases "sdkConnect w (trace s) ?t")
      case (Some e)
      then show ?thesis
        by (simp add: one pt handlePostRequest_def continue_simps settle_done)
    next
      case None
      have two: "settle w ?n (suspend p (snd ?h)) = continue w p (snd ?h)" for p
        using settle_suspend [of w "snd ?h" p] by simp
      show ?thesis
        by (cases "fst ?h")
          (simp_all add: one two None pt handlePostRequest_def continue_simps)
    qed
  qed
qed

lemma advances_beginGet: "advances w s (beginGet w s r)"
proof (rule advances_cond)
  assume inv: "registryInv w s"
  show ?thesis
  proof (cases "\<not> truthy (sessionHeader r) \<or> getTransport s (the (sessionHeader r)) = Undefined")
    case True
    show ?thesis
      unfolding beginGet_bad [OF True] by (rule advances_respondError) simp
  next
    case False
    show ?thesis
    proof (cases "getTransport s (the (sessionHeader r))")
      case (Own t)
      then have "t < allocated s"
        using registryInv_registered [OF inv] registryInv_id [OF inv]
        by (auto simp: getTransport_Own)
      then have "advances w s (snd (transportHandleRequest w s t GET None))"
        by (intro advances_handle)
      moreover have "advances w (snd (transportHandleRequest w s t GET None))
          (suspend (AwaitGetHandle t (fst (transportHandleRequest w s t GET None)))
             (snd (transportHandleRequest w s t GET None)))"
        by (rule advances_suspend) (simp add: newTransportOf_def)
      ultimately show ?thesis
        using False Own by (simp add: beginGet_known) (rule advances_trans)
    next
      case Inherited
      with False show ?thesis
        by (simp add: beginGet_inherited advances_refl)
    next
      case Undefined
      with False show ?thesis by simp
    qed
  qed
qed

lemma advances_beginPost: "advances w s (beginPost w s r)"
proof (rule advances_cond)
  assume inv: "registryInv w s"
  consider
      (known) t where "truthy (sessionHeader r)" "getTransport s (the (sessionHeader r)) = Own t"
    | (inherited) "truthy (sessionHeader r)" "getTransport s (the (sessionHeader r)) = Inherited"
    | (init) "\<not> truthy (sessionHeader r)" "isInitializeRequest (safeParseInitialize w) (body r)"
    | (bad) "(truthy (sessionHeader r) \<and> getTransport s (the (sessionHeader r)) = Undefined) \<or>
        (\<not> truthy (sessionHeader r) \<and> \<not> isInitializeRequest (safeParseInitialize w) (body r))"
    by (cases "getTransport s (the (sessionHeader r))") auto
  then show ?thesis
  proof cases
    case known
    let ?h = "transportHandleRequest w s t POST (Some (body r))"
    from known have "t < allocated s"
      using registryInv_registered [OF inv] registryInv_id [OF inv]
      by (auto simp: getTransport_Own)
    then have "advances w s (snd ?h)"
      by (intro advances_handle)
    moreover have "advances w (snd ?h) (suspend (AwaitPostHandle t (fst ?h)) (snd ?h))"
      by (rule advances_suspend) (simp add: newTransportOf_def)
    ultimately show ?thesis
      using known by (simp add: beginPost_known) (rule advances_trans)
  next
    case inherited
    show ?thesis
      unfolding beginPost_inherited [OF inherited] by (rule advances_respondError) simp
  next
    case bad
    show ?thesis
      unfolding beginPost_bad [OF bad] by (rule advances_respondError) simp
  next
    case init
    let ?s1 = "snd (newTransport s)"
    let ?s2 = "emit (Connect (allocated s)) ?s1"
    have "advances w s ?s1" by (rule advances_newTransport)
    moreover have "advances w ?s1 ?s2" by (rule advances_emit) simp
    moreover have "advances w ?s2
        (suspend (AwaitConnect (allocated s) r (sdkConnect w (trace s) (allocated s))) ?s2)"
      by (rule advances_suspend) (simp add: newTransportOf_def)
    ultimately show ?thesis
      unfolding beginPost_init [OF init] by (blast intro: advances_trans)
  qed
qed

lemma advances_beginSigint: "advances w s (beginSigint w s)"
proof -
  have "advances w s (snd (cleanup w s))" by (rule advances_cleanup)
  moreover have "advances w (snd (cleanup w s))
      (suspend (AwaitServerClose (fst (cleanup w s))) (snd (cleanup w s)))"
    by (rule advances_suspend) (simp add: newTransportOf_def)
  ultimately show ?thesis
    unfolding beginSigint_def case_prod_beta by (rule advances_trans)
qed

lemma advances_continue:
  assumes "\<And>t. registryInv w s \<Longrightarrow> newTransportOf p = Some t \<Longrightarrow> t < allocated s"
  shows "advances w s (continue w p s)"
proof (rule advances_cond)
  assume inv: "registryInv w s"
  show ?thesis
  proof (cases p)
    case (AwaitGetHandle t settled)
    then show ?thesis
      by (cases settled) (simp_all add: continue_simps advances_refl advances_streamMessages)
  next
    case (AwaitPostHandle t settled)
    then show ?thesis
      by (cases settled) (simp_all add: continue_simps advances_refl advances_respondError)
  next
    case (AwaitConnect t req settled)
    let ?h = "transportHandleRequest w s t POST (Some (body req))"
    have t: "t < allocated s"
      using assms [OF inv, of t] AwaitConnect by (simp add: newTransportOf_def)
    then have "advances w s (snd ?h)"
      by (intro advances_handle)
    moreover have "advances w (snd ?h) (suspend (AwaitNewHandle t (fst ?h)) (snd ?h))"
      by (rule advances_suspend) (use t in \<open>simp add: newTransportOf_def\<close>)
    ultimately have "advances w s (suspend (AwaitNewHandle t (fst ?h)) (snd ?h))"
      by (rule advances_trans)
    then show ?thesis
      using AwaitConnect
      by (cases settled) (simp_all add: continue_simps advances_respondError)
  next
    case (AwaitNewHandle t settled)
    show ?thesis
    proof (cases settled)
      case None
      show ?thesis
      proof (cases "sessionIdOf s t")
        case (Some u)
        then show ?thesis
          using AwaitNewHandle None
          by (simp add: continue_simps advances_refl advances_register)
      next
        case none: None
        then show ?thesis
          using AwaitNewHandle None by (simp add: continue_simps advances_refl)
      qed
    next
      case (Some e)
      then show ?thesis
        using AwaitNewHandle by (simp add: continue_simps advances_respondError)
    qed
  next
    case (AwaitServerClose settled)
    then show ?thesis
      by (cases settled) (simp_all add: continue_simps advances_refl advances_emit)
  qed
qed

lemma advances_resume: "advances w s (resume w s k)"
proof (rule advances_cond)
  assume inv: "registryInv w s"
  show ?thesis
  proof (cases "k < length (pending s)")
    case False
    then show ?thesis by (simp add: resume_def advances_refl)
  next
    case True
    let ?s0 = "s\<lparr>pending := take k (pending s) @ drop (Suc k) (pending s)\<rparr>"
    have "set (take k (pending s) @ drop (Suc k) (pending s)) \<subseteq> set (pending s)"
      using set_take_subset [of k "pending s"] set_drop_subset [of "Suc k" "pending s"]
      by auto
    then have "advances w s ?s0"
      by (rule advances_pending)
    moreover have "advances w ?s0 (continue w (pending s ! k) ?s0)"
    proof (rule advances_continue)
      fix t assume "newTransportOf (pending s ! k) = Some t"
      then show "t < allocated ?s0"
        using registryInv_pending [OF inv nth_mem [OF True]] by simp
    qed
    ultimately show ?thesis
      using True by (simp add: resume_def) (rule advances_trans)
  qed
qed

lemma advances_settle: "advances w s (settle w n s)"
  by (simp add: settle_def advances_resume advances_refl)

lemma advances_step: "advances w s (step w s c)"
proof (cases c)
  case (Post r)
  then show ?thesis
    by (simp add: handlePost_settle)
      (blast intro: advances_trans advances_beginPost advances_settle)
next
  case (Get r)
  then show ?thesis
    by (simp add: handleGet_settle)
      (blast intro: advances_trans advances_beginGet advances_settle)
next
  case Sigint
  then show ?thesis
    by (simp add: sigint_settle)
      (blast intro: advances_trans advances_beginSigint advances_settle)
qed (simp_all add: advances_beginPost advances_beginGet advances_beginSigint advances_resume
    advances_closePush)

lemma run_Nil [simp]: "run w s [] = s"
  by (simp add: run_def)

lemma run_Cons [simp]: "run w s (c # cs) = run w (step w s c) cs"
  by (simp add: run_def)

lemma run_append: "run w s (cs @ ds) = run w (run w s cs) ds"
  by (simp add: run_def)

lemma advances_run: "advances w s (run w s cs)"
proof (induction cs arbitrary: s)
  case Nil
  show ?case by (simp add: advances_refl)
next
  case (Cons c cs)
  show ?case
    using advances_step [of w s c] Cons [of "step w s c"] by (simp add: advances_trans)
qed

lemma registryInv_initial: "registryInv w initialState"
  by (simp add: registryInv_def initialState_def)

lemma distinctIds_initial: "distinctIds initialState"
  by (simp add: distinctIds_def initialState_def)

lemma registryInv_reachable: "registryInv w (run w initialState cs)"
  using advances_run [of w initialState cs] registryInv_initial [of w]
  unfolding advances_def by blast

lemma ownTrace_reachable: "ownTrace w (run w initialState cs)"
proof -
  from advances_run [of w initialState cs] registryInv_initial [of w]
  obtain new where "trace (run w initialState cs) = trace initialState @ new"
    "\<forall>e\<in>set new. ownEvent w (uuids (run w initialState cs)) e"
    unfolding advances_def by blast
  then show ?thesis
    by (simp add: ownTrace_def initialState_def)
qed

lemma toolInterval_reachable: "toolInterval (run w initialState cs) = None"
proof -
  from advances_run [of w initialState cs] registryInv_initial [of w]
  have "toolInterval (run w initialState cs) = toolInterval initialState"
    unfolding advances_def by blast
  then show ?thesis
    by (simp add: initialState_def)
qed

lemma distinctIds_reachable:
  assumes "inj_on (\<lambda>i. randomUUID (entropy w i)) {..<uuids (run w initialState cs)}"
  shows "distinctIds (run w initialState cs)"
  using advances_run [of w initialState cs] registryInv_initial [of w] distinctIds_initial assms
  unfolding advances_def by blast

section \<open>The handlers run from start to end\<close>

lemma respondError_eq:
  "respondError w s n m =
     s\<lparr>uuids := Suc (uuids s),
       trace := trace s @ [Respond n (errorEnvelope m (randomUUID (entropy w (uuids s))))]\<rparr>"
  by (simp add: respondError_def createErrorResponse_def nextUUID_def emit_def errorEnvelope_def)

lemma post_fst: "fst (handlePostRequest w s r) = None"
  by (simp add: handlePostRequest_def split: prod.split option.split)

lemma post_known:
  assumes "truthy (sessionHeader r)" "getTransport s (the (sessionHeader r)) = Own t"
  shows "snd (handlePostRequest w s r) =
     (case fst (transportHandleRequest w s t POST (Some (body r))) of
        Some e \<Rightarrow> respondError w (snd (transportHandleRequest w s t POST (Some (body r)))) 500
                    ''Internal server error.''
      | None \<Rightarrow> snd (transportHandleRequest w s t POST (Some (body r))))"
  using assms
  by (simp add: handlePostRequest_def postTry_def Let_def split: prod.split option.split)

lemma post_inherited:
  assumes "truthy (sessionHeader r)" "getTransport s (the (sessionHeader r)) = Inherited"
  shows "snd (handlePostRequest w s r) = respondError w s 500 ''Internal server error.''"
  using assms by (simp add: handlePostRequest_def postTry_def Let_def)

lemma post_bad:
  assumes "truthy (sessionHeader r) \<and> getTransport s (the (sessionHeader r)) = Undefined \<or>
           \<not> truthy (sessionHeader r) \<and> \<not> isInitializeRequest (safeParseInitialize w) (body r)"
  shows "snd (handlePostRequest w s r) =
           respondError w s 400 ''Bad Request: invalid session ID or method.''"
  using assms by (auto simp: handlePostRequest_def postTry_def Let_def)

lemma post_init:
  assumes "\<not> truthy (sessionHeader r)" "isInitializeRequest (safeParseInitialize w) (body r)"
  shows "snd (handlePostRequest w s r) =
     (let t = allocated s;
          s2 = emit (Connect t) (snd (newTransport s));
          h = transportHandleRequest w s2 t POST (Some (body r)) in
      case sdkConnect w (trace s) t of
        Some e \<Rightarrow> respondError w s2 500 ''Internal server error.''
      | None \<Rightarrow>
          (case fst h of
             Some e \<Rightarrow> respondError w (snd h) 500 ''Internal server error.''
           | None \<Rightarrow>
               (if truthy (sessionIdOf (snd h) t) then
                  (snd h)\<lparr>transports := (transports (snd h))(the (sessionIdOf (snd h) t) \<mapsto> t)\<rparr>
                else snd h)))"
  using assms
  by (simp add: handlePostRequest_def postTry_def Let_def serverConnect_def newTransport_def
      split: prod.split option.split)

lemma get_bad:
  assumes "\<not> truthy (sessionHeader r) \<or> getTransport s (the (sessionHeader r)) = Undefined"
  shows "handleGetRequest w s r =
           (None, respondError w s 400 ''Bad Request: invalid session ID or method.'')"
  using assms by (auto simp: handleGetRequest_def Let_def)

lemma get_known:
  assumes "truthy (sessionHeader r)" "getTransport s (the (sessionHeader r)) = Own t"
  shows "handleGetRequest w s r =
     (case fst (transportHandleRequest w s t GET None) of
        Some e \<Rightarrow> (Some e, snd (transportHandleRequest w s t GET None))
      | None \<Rightarrow> (None, streamMessages (snd (transportHandleRequest w s t GET None)) t))"
  using assms
  by (simp add: handleGetRequest_def Let_def split: prod.split option.split)

lemma get_inherited:
  assumes "truthy (sessionHeader r)" "getTransport s (the (sessionHeader r)) = Inherited"
  shows "handleGetRequest w s r =
           (Some (TypeError ''transport.handleRequest is not a function''), s)"
  using assms by (simp add: handleGetRequest_def Let_def)

lemma get_transports: "transports (snd (handleGetRequest w s r)) = transports s"
proof (cases "\<not> truthy (sessionHeader r) \<or> getTransport s (the (sessionHeader r)) = Undefined")
  case True
  then show ?thesis by (simp add: get_bad)
next
  case False
  then show ?thesis
    by (cases "getTransport s (the (sessionHeader r))")
      (simp_all add: get_known get_inherited split: option.split)
qed

text \<open>
  Where the session check does reject: a POST whose session id is non-empty and is no
  property of the registry at all, or that has no session id and is not an initialize
  request, and a GET whose session id is empty, absent or no property of the registry.
  The answer is status 400 with the error envelope.
\<close>

lemma bad_request_post:
  assumes "truthy (sessionHeader req) \<and> getTransport s (the (sessionHeader req)) = Undefined \<or>
           \<not> truthy (sessionHeader req) \<and> \<not> isInitializeRequest (safeParseInitialize w) (body req)"
  shows "handlePostRequest w s req =
     (None, s\<lparr>uuids := Suc (uuids s), trace := trace s @
        [Respond 400 (errorEnvelope ''Bad Request: invalid session ID or method.''
                        (randomUUID (entropy w (uuids s))))]\<rparr>)"
  using post_bad [OF assms] post_fst [of w s req]
  by (simp add: prod_eq_iff respondError_eq)

lemma bad_request_get:
  assumes "\<not> truthy (sessionHeader req) \<or> getTransport s (the (sessionHeader req)) = Undefined"
  shows "handleGetRequest w s req =
     (None, s\<lparr>uuids := Suc (uuids s), trace := trace s @
        [Respond 400 (errorEnvelope ''Bad Request: invalid session ID or method.''
                        (randomUUID (entropy w (uuids s))))]\<rparr>)"
  using get_bad [OF assms] by (simp add: respondError_eq)

section \<open>Evaluation in the concrete surroundings\<close>

lemma sampleEnv_simps [simp]:
  "safeParseInitialize sampleEnv = hasMethod ''initialize''"
  "sdkConnect sampleEnv tr t = None"
  "sdkClose sampleEnv tr = None"
  "entropy sampleEnv k = (\<lambda>i. k)"
  "sdkHandleRequest sampleEnv tr t v None = Returns False"
  "sdkHandleRequest sampleEnv tr t v (Some (JObj fs)) =
     Returns (v = POST \<and> hasMethod ''initialize'' (JObj fs))"
  "sdkHandleRequest sampleEnv tr t v (Some (JArr [x, y])) = Returns False"
  "sdkHandleRequest sampleEnv tr t v (Some JNull) = Returns False"
  by (simp_all add: sampleEnv_def isInitializeRequest_def hasMethod_def)

lemma repeatingEnv_simps [simp]:
  "safeParseInitialize repeatingEnv = hasMethod ''initialize''"
  "sdkConnect repeatingEnv tr t = None"
  "sdkClose repeatingEnv tr = None"
  "entropy repeatingEnv k = (\<lambda>i. 0)"
  "sdkHandleRequest repeatingEnv = sdkHandleRequest sampleEnv"
  by (simp_all add: repeatingEnv_def sampleEnv_def)

lemma uuid0: "randomUUID (\<lambda>i. 0) = firstSession"
  by (simp add: randomUUID_def uuidDigits_def hexChar_def upt_rec firstSession_def)

lemma uuid1: "randomUUID (\<lambda>i. Suc 0) = secondSession"
  by (simp add: randomUUID_def uuidDigits_def hexChar_def upt_rec secondSession_def)

lemma init_is_init: "hasMethod ''initialize'' initializeBody"
  by (simp add: hasMethod_def initializeBody_def)

lemma isInit_initBody: "isInitializeRequest (hasMethod ''initialize'') initializeBody"
  by (simp add: isInitializeRequest_def initializeBody_def hasMethod_def)

lemma initialState_simps [simp]:
  "transports initialState = Map.empty" "sessionIdOf initialState = (\<lambda>_. None)"
  "allocated initialState = 0" "toolInterval initialState = None"
  "uuids initialState = 0" "trace initialState = []"
  "pending initialState = []" "pushChannel initialState = (\<lambda>_. False)"
  "answers initialState = []"
  by (simp_all add: initialState_def)

lemma initializeRequest_simps [simp]:
  "sessionHeader initializeRequest = None" "body initializeRequest = initializeBody"
  by (simp_all add: initializeRequest_def)

lemma openRequest_simps [simp]:
  "sessionHeader openRequest = Some firstSession" "body openRequest = JObj []"
  by (simp_all add: openRequest_def)

lemma handle_init_sample [simp]:
  "sdkHandleRequest sampleEnv tr t POST (Some initializeBody) = Returns True"
  using init_is_init by (simp add: initializeBody_def)

lemma firstSession_truthy [simp]: "firstSession \<noteq> []"
  by (simp add: firstSession_def)

lemma secondSession_truthy [simp]: "secondSession \<noteq> []"
  by (simp add: secondSession_def)

lemma sessions_differ [simp]: "firstSession \<noteq> secondSession" "secondSession \<noteq> firstSession"
  by (simp_all add: firstSession_def secondSession_def)

lemma handle_accepts:
  assumes "sdkHandleRequest w (trace s) t POST b = Returns True" "sessionIdOf s t = None"
  shows "transportHandleRequest w s t POST b =
     (None, s\<lparr>sessionIdOf := (sessionIdOf s)(t \<mapsto> randomUUID (entropy w (uuids s))),
              uuids := Suc (uuids s),
              trace := trace s @ [HandleRequest t POST b],
              answers := answers s @ [(t, SessionId (randomUUID (entropy w (uuids s))))]\<rparr>)"
  using assms
  by (simp add: transportHandleRequest_def Let_def nextUUID_def returnSessionId_def emit_def)

lemma post_init_sample:
  "handlePostRequest sampleEnv initialState initializeRequest =
     (None, \<lparr>transports = [firstSession \<mapsto> 0], sessionIdOf = (\<lambda>_. None)(0 \<mapsto> firstSession),
       allocated = Suc 0, toolInterval = None, uuids = Suc 0,
       trace = [Connect 0, HandleRequest 0 POST (Some initializeBody)],
       pending = [], pushChannel = (\<lambda>_. False),
       answers = [(0, SessionId firstSession)]\<rparr>)"
proof -
  have "snd (handlePostRequest sampleEnv initialState initializeRequest) =
     \<lparr>transports = [firstSession \<mapsto> 0], sessionIdOf = (\<lambda>_. None)(0 \<mapsto> firstSession),
       allocated = Suc 0, toolInterval = None, uuids = Suc 0,
       trace = [Connect 0, HandleRequest 0 POST (Some initializeBody)],
       pending = [], pushChannel = (\<lambda>_. False),
       answers = [(0, SessionId firstSession)]\<rparr>"
    by (subst post_init)
      (simp_all add: isInit_initBody Let_def handle_accepts uuid0 newTransport_def emit_def
        initialState_def)
  then show ?thesis
    using post_fst [of sampleEnv initialState initializeRequest] by (simp add: prod_eq_iff)
qed

lemma oneSession_eq:
  "oneSession =
     \<lparr>transports = [firstSession \<mapsto> 0], sessionIdOf = (\<lambda>_. None)(0 \<mapsto> firstSession),
      allocated = Suc 0, toolInterval = None, uuids = Suc 0,
      trace = [Connect 0, HandleRequest 0 POST (Some initializeBody)],
      pending = [], pushChannel = (\<lambda>_. False),
      answers = [(0, SessionId firstSession)]\<rparr>"
  by (simp add: oneSession_def post_init_sample)

lemma oneSession_simps:
  "transports oneSession = [firstSession \<mapsto> 0]"
  "sessionIdOf oneSession = (\<lambda>_. None)(0 \<mapsto> firstSession)"
  "allocated oneSession = Suc 0" "toolInterval oneSession = None" "uuids oneSession = Suc 0"
  "trace oneSession = [Connect 0, HandleRequest 0 POST (Some initializeBody)]"
  "pending oneSession = []" "pushChannel oneSession = (\<lambda>_. False)"
  "answers oneSession = [(0, SessionId firstSession)]"
  by (simp_all add: oneSession_eq)

lemma getTransport_oneSession [simp]: "getTransport oneSession firstSession = Own 0"
  by (simp add: getTransport_def oneSession_eq)

lemma twoSessions_eq:
  "twoSessions =
     \<lparr>transports = [firstSession \<mapsto> 0, secondSession \<mapsto> 1],
      sessionIdOf = (\<lambda>_. None)(0 \<mapsto> firstSession, 1 \<mapsto> secondSession),
      allocated = 2, toolInterval = None, uuids = 2,
      trace = [Connect 0, HandleRequest 0 POST (Some initializeBody),
               Connect 1, HandleRequest 1 POST (Some initializeBody)],
      pending = [], pushChannel = (\<lambda>_. False),
      answers = [(0, SessionId firstSession), (1, SessionId secondSession)]\<rparr>"
proof -
  have "snd (handlePostRequest sampleEnv oneSession initializeRequest) =
     \<lparr>transports = [firstSession \<mapsto> 0, secondSession \<mapsto> 1],
      sessionIdOf = (\<lambda>_. None)(0 \<mapsto> firstSession, 1 \<mapsto> secondSession),
      allocated = 2, toolInterval = None, uuids = 2,
      trace = [Connect 0, HandleRequest 0 POST (Some initializeBody),
               Connect 1, HandleRequest 1 POST (Some initializeBody)],
      pending = [], pushChannel = (\<lambda>_. False),
      answers = [(0, SessionId firstSession), (1, SessionId secondSession)]\<rparr>"
    by (subst post_init)
      (simp_all add: isInit_initBody Let_def handle_accepts uuid1 newTransport_def emit_def
        oneSession_eq)
  moreover have "twoSessions = snd (handlePostRequest sampleEnv oneSession initializeRequest)"
    by (simp add: twoSessions_def oneSession_def)
  ultimately show ?thesis by simp
qed

lemma sample_ids_distinct: "inj_on (\<lambda>i. randomUUID (entropy sampleEnv i)) {..<2}"
proof -
  have "{..<2::nat} = {0, Suc 0}" by auto
  then show ?thesis
    by (simp add: uuid0 uuid1)
qed

lemma getTransport_constructor: "getTransport initialState ''constructor'' = Inherited"
  by (simp add: getTransport_def objectPrototypeKeys_def)

section \<open>Facts about runs\<close>

lemma toolNames_listTools: "toolNames listTools = []"
  by (simp add: toolNames_def listTools_def jsonField_def List.map_filter_simps)

lemma fresh_transport: "registryInv w s \<Longrightarrow> allocated s \<notin> ran (transports s)"
  using registryInv_registered [of w s] registryInv_id [of w s "allocated s"]
  by (fastforce simp: ran_def)


lemma entries_kept:
  assumes "s = run w initialState cs"
    and "inj_on (\<lambda>i. randomUUID (entropy w i)) {..<uuids (run w s cs')}"
  shows "distinctIds (run w s cs')"
    and "transports s sid = Some t \<Longrightarrow> transports (run w s cs') sid = Some t"
    and "sessionIdOf s t = Some u \<Longrightarrow> sessionIdOf (run w s cs') t = Some u"
proof -
  have le: "uuids s \<le> uuids (run w s cs')"
    using advances_run [of w s cs'] registryInv_reachable [of w cs] assms(1)
    unfolding advances_def by blast
  have "inj_on (\<lambda>i. randomUUID (entropy w i)) {..<uuids s}"
    using assms(2) le by (auto intro: inj_on_subset)
  then have d: "distinctIds s"
    unfolding assms(1) by (rule distinctIds_reachable)
  show "distinctIds (run w s cs')"
    using advances_run [of w s cs'] registryInv_reachable [of w cs] assms d
    unfolding advances_def by blast
  show "transports s sid = Some t \<Longrightarrow> transports (run w s cs') sid = Some t"
    using advances_run [of w s cs'] registryInv_reachable [of w cs] assms d
    unfolding advances_def by blast
  show "sessionIdOf s t = Some u \<Longrightarrow> sessionIdOf (run w s cs') t = Some u"
    using advances_run [of w s cs'] registryInv_reachable [of w cs] assms(1)
    unfolding advances_def by blast
qed

lemma reachable_id_truthy:
  assumes "registryInv w s" "sessionIdOf s t = Some u"
  shows "u \<noteq> []"
  using registryInv_id [OF assms] by (auto simp: randomUUID_nonempty)

lemma post_init_accepted:
  assumes "\<not> truthy (sessionHeader r)" "isInitializeRequest (safeParseInitialize w) (body r)"
    and "registryInv w s" "accepted w s r"
  shows "snd (handlePostRequest w s r) =
     s\<lparr>allocated := Suc (allocated s),
       sessionIdOf := (sessionIdOf s)(allocated s \<mapsto> randomUUID (entropy w (uuids s))),
       uuids := Suc (uuids s),
       trace := trace s @ [Connect (allocated s), HandleRequest (allocated s) POST (Some (body r))],
       answers := answers s @ [(allocated s, SessionId (randomUUID (entropy w (uuids s))))],
       transports := (transports s)(randomUUID (entropy w (uuids s)) \<mapsto> allocated s)\<rparr>"
proof -
  let ?s2 = "emit (Connect (allocated s)) (snd (newTransport s))"
  have "sdkHandleRequest w (trace ?s2) (allocated s) POST (Some (body r)) = Returns True"
    and "sessionIdOf ?s2 (allocated s) = None"
    using assms(4) by (simp_all add: accepted_def)
  from handle_accepts [OF this] assms(4) show ?thesis
    by (simp add: post_init [OF assms(1,2)] Let_def accepted_def randomUUID_nonempty
        newTransport_def emit_def)
qed





lemma resume_registers:
  assumes "registryInv w s" "k < length (pending s)" "pending s ! k = AwaitNewHandle t None"
    and "sessionIdOf s t = Some v"
  shows "transports (resume w s k) = (transports s)(v \<mapsto> t)"
    and "(t, SessionId v) \<in> set (answers s)"
  using assms reachable_id_truthy [OF assms(1,4)] registryInv_id [OF assms(1,4)]
  by (simp_all add: resume_def continue_simps)

lemma accepted_sample:
  "accepted sampleEnv s initializeRequest" "accepted repeatingEnv s initializeRequest"
  by (simp_all add: accepted_def)

lemma repeating_one: "run repeatingEnv initialState [Post initializeRequest] = oneSession"
proof -
  have "\<not> truthy (sessionHeader initializeRequest)"
    and "isInitializeRequest (safeParseInitialize repeatingEnv) (body initializeRequest)"
    by (simp_all add: isInit_initBody)
  from post_init_accepted [OF this registryInv_initial accepted_sample(2)]
  show ?thesis
    by (simp add: oneSession_eq uuid0 initialState_def)
qed

lemma repeating_two:
  "run repeatingEnv initialState [Post initializeRequest, Post initializeRequest] =
     \<lparr>transports = [firstSession \<mapsto> 1],
      sessionIdOf = (\<lambda>_. None)(0 \<mapsto> firstSession, 1 \<mapsto> firstSession),
      allocated = 2, toolInterval = None, uuids = 2,
      trace = [Connect 0, HandleRequest 0 POST (Some initializeBody),
               Connect 1, HandleRequest 1 POST (Some initializeBody)],
      pending = [], pushChannel = (\<lambda>_. False),
      answers = [(0, SessionId firstSession), (1, SessionId firstSession)]\<rparr>"
proof -
  have "\<not> truthy (sessionHeader initializeRequest)"
    and "isInitializeRequest (safeParseInitialize repeatingEnv) (body initializeRequest)"
    by (simp_all add: isInit_initBody)
  moreover have "registryInv repeatingEnv oneSession"
    using registryInv_reachable [of repeatingEnv "[Post initializeRequest]"]
    by (simp only: repeating_one)
  ultimately have "snd (handlePostRequest repeatingEnv oneSession initializeRequest) =
     \<lparr>transports = [firstSession \<mapsto> 1],
      sessionIdOf = (\<lambda>_. None)(0 \<mapsto> firstSession, 1 \<mapsto> firstSession),
      allocated = 2, toolInterval = None, uuids = 2,
      trace = [Connect 0, HandleRequest 0 POST (Some initializeBody),
               Connect 1, HandleRequest 1 POST (Some initializeBody)],
      pending = [], pushChannel = (\<lambda>_. False),
      answers = [(0, SessionId firstSession), (1, SessionId firstSession)]\<rparr>"
    using accepted_sample(2) [of oneSession]
    by (simp add: post_init_accepted oneSession_eq uuid0)
  moreover have "run repeatingEnv initialState [Post initializeRequest, Post initializeRequest] =
      snd (handlePostRequest repeatingEnv
             (run repeatingEnv initialState [Post initializeRequest]) initializeRequest)"
    by simp
  ultimately show ?thesis
    by (simp only: repeating_one)
qed

lemma twoSessions_simps:
  "transports twoSessions = [firstSession \<mapsto> 0, secondSession \<mapsto> 1]"
  "sessionIdOf twoSessions = (\<lambda>_. None)(0 \<mapsto> firstSession, 1 \<mapsto> secondSession)"
  "allocated twoSessions = 2" "toolInterval twoSessions = None" "uuids twoSessions = 2"
  "trace twoSessions = [Connect 0, HandleRequest 0 POST (Some initializeBody),
               Connect 1, HandleRequest 1 POST (Some initializeBody)]"
  "pending twoSessions = []" "pushChannel twoSessions = (\<lambda>_. False)"
  "answers twoSessions = [(0, SessionId firstSession), (1, SessionId secondSession)]"
  by (simp_all add: twoSessions_eq)

lemma getTransport_twoSessions [simp]:
  "getTransport twoSessions firstSession = Own 0"
  "getTransport twoSessions secondSession = Own 1"
  by (simp_all add: getTransport_def twoSessions_simps)

lemma twoSessions_get:
  "uuids (run sampleEnv twoSessions [Get openRequest]) = 2"
  "transports (run sampleEnv twoSessions [Get openRequest]) =
     [firstSession \<mapsto> 0, secondSession \<mapsto> 1]"
  "sessionIdOf (run sampleEnv twoSessions [Get openRequest]) =
     (\<lambda>_. None)(0 \<mapsto> firstSession, 1 \<mapsto> secondSession)"
  by (simp_all add: get_known handle_fst handle_ids twoSessions_simps)

lemma sent_sameObject:
  "sameObject (JObj [(''method'', JStr ''notifications/message''),
           (''params'', JObj [(''level'', JStr ''info''),
                              (''data'', JStr ''SSE Connection established'')]),
           (''jsonrpc'', JStr ''2.0'')]) (infoNotification ''SSE Connection established'')"
  by (auto simp: sameObject_def infoNotification_def)

lemma sends_reachable:
  assumes "Send t m \<in> set (trace (run w initialState cs))"
  shows "sameObject m (infoNotification ''SSE Connection established'')"
  using ownTrace_reachable [of w cs] assms by (auto simp: ownTrace_def ownEvent_def)

lemma resume_get:
  assumes "k < length (pending s)" "pending s ! k = AwaitGetHandle t None"
  shows "trace (resume w s k) =
     trace s @ [Send t (JObj [(''method'', JStr ''notifications/message''),
           (''params'', JObj [(''level'', JStr ''info''),
                              (''data'', JStr ''SSE Connection established'')]),
           (''jsonrpc'', JStr ''2.0'')])]"
    and "answers (resume w s k) = answers s"
    and "pushChannel (resume w s k) = pushChannel s"
    and "pending (resume w s k) = take k (pending s) @ drop (Suc k) (pending s)"
  using assms by (simp_all add: resume_def continue_simps)

lemma overlapping_opens:
  "answers (run sampleEnv oneSession
      [GetBegin openRequest, GetBegin openRequest, Resume 0, Resume 0]) =
     [(0, SessionId firstSession), (0, PushOpened), (0, AlreadyOpen)]"
  "\<exists>n. trace (run sampleEnv oneSession
      [GetBegin openRequest, GetBegin openRequest, Resume 0, Resume 0]) =
     [Connect 0, HandleRequest 0 POST (Some initializeBody), HandleRequest 0 GET None,
      HandleRequest 0 GET None, Send 0 n, Send 0 n]"
proof -
  let ?h1 = "transportHandleRequest sampleEnv oneSession 0 GET None"
  have b1: "beginGet sampleEnv oneSession openRequest = suspend (AwaitGetHandle 0 None) (snd ?h1)"
    by (simp add: beginGet_known handle_fst)
  let ?s1 = "suspend (AwaitGetHandle 0 None) (snd ?h1)"
  have own1: "getTransport ?s1 firstSession = Own 0"
    by (simp add: getTransport_def oneSession_simps)
  let ?h2 = "transportHandleRequest sampleEnv ?s1 0 GET None"
  have b2: "beginGet sampleEnv ?s1 openRequest = suspend (AwaitGetHandle 0 None) (snd ?h2)"
    by (simp add: beginGet_known own1 handle_fst)
  let ?s2 = "suspend (AwaitGetHandle 0 None) (snd ?h2)"
  have p2: "pending ?s2 = [AwaitGetHandle 0 None, AwaitGetHandle 0 None]"
    by (simp add: oneSession_simps)
  let ?s3 = "resume sampleEnv ?s2 0"
  have p3: "pending ?s3 = [AwaitGetHandle 0 None]"
    by (simp add: resume_get oneSession_simps)
  have run: "run sampleEnv oneSession
      [GetBegin openRequest, GetBegin openRequest, Resume 0, Resume 0] = resume sampleEnv ?s3 0"
    by (simp add: b1 b2)
  show "answers (run sampleEnv oneSession
      [GetBegin openRequest, GetBegin openRequest, Resume 0, Resume 0]) =
     [(0, SessionId firstSession), (0, PushOpened), (0, AlreadyOpen)]"
    unfolding run
    by (auto simp: resume_get p3 handle_answers oneSession_simps)
  show "\<exists>n. trace (run sampleEnv oneSession
      [GetBegin openRequest, GetBegin openRequest, Resume 0, Resume 0]) =
     [Connect 0, HandleRequest 0 POST (Some initializeBody), HandleRequest 0 GET None,
      HandleRequest 0 GET None, Send 0 n, Send 0 n]"
    unfolding run
    by (simp add: resume_get p3 oneSession_simps)
qed


section \<open>The claims\<close>

subsection \<open>C1: the initialize request creates the session\<close>




subsection \<open>C2: requests without a usable session\<close>

text \<open>
  C2 at the session id \<open>constructor\<close>, which no session was ever registered under.
  \<open>this.transports\<close> is a plain object, so \<open>this.transports["constructor"]\<close> is the
  inherited \<open>Object\<close> function and the session check lets the request through. The
  POST then fails inside the \<open>try\<close> block and is answered with status 500 and the
  message "Internal server error."; the GET throws a \<open>TypeError\<close> and writes no answer.
  The claim asks for status 400 and "Bad Request: invalid session ID or method." in both
  cases. (For every session id that is not the name of a property of \<open>Object.prototype\<close>
  the two lemmas \<open>bad_request_post\<close> and \<open>bad_request_get\<close> give the claimed answer.)
\<close>

theorem inherited_key_passes_session_check:
  "handlePostRequest w initialState \<lparr>sessionHeader = Some ''constructor'', body = b\<rparr> =
     (None, initialState\<lparr>uuids := 1, trace :=
        [Respond 500 (errorEnvelope ''Internal server error.'' (randomUUID (entropy w 0)))]\<rparr>) \<and>
   handleGetRequest w initialState \<lparr>sessionHeader = Some ''constructor'', body = b\<rparr> =
     (Some (TypeError ''transport.handleRequest is not a function''), initialState)"
  by (simp add: handlePostRequest_def postTry_def Let_def getTransport_constructor get_inherited
      respondError_eq)

theorem inherited_key_passes_session_check_witness:
  "trace (snd (handlePostRequest sampleEnv initialState
      \<lparr>sessionHeader = Some ''constructor'', body = JObj []\<rparr>)) =
     [Respond 500 (errorEnvelope ''Internal server error.'' firstSession)] \<and>
   fst (handleGetRequest sampleEnv initialState
      \<lparr>sessionHeader = Some ''constructor'', body = JObj []\<rparr>) =
     Some (TypeError ''transport.handleRequest is not a function'')"
  by (simp add: inherited_key_passes_session_check uuid0)

subsection \<open>C3: opening the push channel\<close>

text \<open>
  C3. In every state the server can reach, with the handlers interleaved at their awaits
  in any way, a GET with the id of a registered session is handed to that session's
  transport. If a push channel already exists for the session, the transport's answer
  is \<open>AlreadyOpen\<close> and the channel is as it was. If none exists, the transport opens
  it, and when the call has returned the server sends one notification on the transport,
  the object \<open>{"jsonrpc":"2.0","method":"notifications/message","params":{"level":"info",
  "data":"SSE Connection established"}}\<close>, directly after the call when the handler
  runs without interruption. No other message is ever sent by the server on any
  transport, so no tool-originated notification precedes it. Cut at its await, the
  handler makes the call, with the same answer, in its first part and sends the
  notification in its second.
\<close>

theorem push_channel_opens_once:
  assumes "s = run w initialState cs"
    and "sessionHeader req = Some sid"
    and "transports s sid = Some t"
    and "sdkHandleRequest w (trace s) t GET None = Returns i"
    and "s' = snd (handleGetRequest w s req)"
  shows "(pushChannel s t \<longrightarrow>
            answers s' = answers s @ [(t, AlreadyOpen)] \<and> pushChannel s' = pushChannel s) \<and>
         (\<not> pushChannel s t \<longrightarrow>
            answers s' = answers s @ [(t, PushOpened)] \<and>
            pushChannel s' = (pushChannel s)(t := True)) \<and>
         fst (handleGetRequest w s req) = None \<and>
         (\<exists>n. trace s' = trace s @ [HandleRequest t GET None, Send t n] \<and>
              sameObject n (infoNotification ''SSE Connection established'')) \<and>
         (\<forall>e\<in>set (trace s'). \<forall>t' m. e = Send t' m \<longrightarrow>
              sameObject m (infoNotification ''SSE Connection established'')) \<and>
         answers (beginGet w s req) = answers s' \<and>
         pushChannel (beginGet w s req) = pushChannel s' \<and>
         trace (beginGet w s req) = trace s @ [HandleRequest t GET None] \<and>
         pending (beginGet w s req) = pending s @ [AwaitGetHandle t None] \<and>
         (\<forall>k t'. k < length (pending s) \<longrightarrow> pending s ! k = AwaitGetHandle t' None \<longrightarrow>
            (\<exists>n. trace (resume w s k) = trace s @ [Send t' n] \<and>
                 sameObject n (infoNotification ''SSE Connection established'')) \<and>
            answers (resume w s k) = answers s \<and> pushChannel (resume w s k) = pushChannel s)"
proof -
  have inv: "registryInv w s"
    unfolding assms(1) by (rule registryInv_reachable)
  have id: "sessionIdOf s t = Some sid"
    by (rule registryInv_registered [OF inv assms(3)])
  have tr: "truthy (sessionHeader req)"
    using reachable_id_truthy [OF inv id] by (simp add: assms(2))
  have own: "getTransport s (the (sessionHeader req)) = Own t"
    by (simp add: assms(2,3) getTransport_Own)
  let ?h = "transportHandleRequest w s t GET None"
  have h: "fst ?h = None"
    by (simp add: handle_fst assms(4))
  have get: "handleGetRequest w s req = (None, streamMessages (snd ?h) t)"
    by (simp add: get_known [OF tr own] h)
  have ans: "answers (snd ?h) = answers s @ [(t, if pushChannel s t then AlreadyOpen else PushOpened)]"
    and ch: "pushChannel (snd ?h) = (pushChannel s)(t := True)"
    by (simp_all add: handle_answers assms(4) id)
  have c1: "pushChannel s t \<longrightarrow>
            answers s' = answers s @ [(t, AlreadyOpen)] \<and> pushChannel s' = pushChannel s"
    by (auto simp: assms(5) get ans ch fun_eq_iff)
  have c2: "\<not> pushChannel s t \<longrightarrow>
            answers s' = answers s @ [(t, PushOpened)] \<and>
            pushChannel s' = (pushChannel s)(t := True)"
    by (simp add: assms(5) get ans ch)
  have c3: "fst (handleGetRequest w s req) = None"
    by (simp add: get)
  have c4: "\<exists>n. trace s' = trace s @ [HandleRequest t GET None, Send t n] \<and>
              sameObject n (infoNotification ''SSE Connection established'')"
    using sent_sameObject by (simp add: assms(5) get)
  have "s' = run w initialState (cs @ [Get req])"
    by (simp add: run_append assms(1,5))
  then have c5: "\<forall>e\<in>set (trace s'). \<forall>t' m. e = Send t' m \<longrightarrow>
              sameObject m (infoNotification ''SSE Connection established'')"
    using sends_reachable [of _ _ w "cs @ [Get req]"] by blast
  have c6: "answers (beginGet w s req) = answers s'"
    and c7: "pushChannel (beginGet w s req) = pushChannel s'"
    and c8: "trace (beginGet w s req) = trace s @ [HandleRequest t GET None]"
    and c9: "pending (beginGet w s req) = pending s @ [AwaitGetHandle t None]"
    by (simp_all add: beginGet_known [OF tr own] assms(5) get h)
  have c10: "\<forall>k t'. k < length (pending s) \<longrightarrow> pending s ! k = AwaitGetHandle t' None \<longrightarrow>
            (\<exists>n. trace (resume w s k) = trace s @ [Send t' n] \<and>
                 sameObject n (infoNotification ''SSE Connection established'')) \<and>
            answers (resume w s k) = answers s \<and> pushChannel (resume w s k) = pushChannel s"
    using sent_sameObject by (simp add: resume_get)
  show ?thesis
    by (intro conjI c1 c2 c3 c4 c5 c6 c7 c8 c9 c10)
qed

theorem push_channel_opens_once_witness:
  "answers (run sampleEnv oneSession [Get openRequest]) =
     [(0, SessionId firstSession), (0, PushOpened)] \<and>
   pushChannel (run sampleEnv oneSession [Get openRequest]) 0 \<and>
   (\<exists>n. trace (run sampleEnv oneSession [Get openRequest]) =
        [Connect 0, HandleRequest 0 POST (Some initializeBody), HandleRequest 0 GET None,
         Send 0 n] \<and>
        sameObject n (infoNotification ''SSE Connection established'')) \<and>
   answers (run sampleEnv oneSession [Get openRequest, Get openRequest]) =
     [(0, SessionId firstSession), (0, PushOpened), (0, AlreadyOpen)] \<and>
   answers (run sampleEnv oneSession
      [GetBegin openRequest, GetBegin openRequest, Resume 0, Resume 0]) =
     [(0, SessionId firstSession), (0, PushOpened), (0, AlreadyOpen)]"
proof -
  let ?s1 = "snd (handleGetRequest sampleEnv oneSession openRequest)"
  have one: "oneSession = run sampleEnv initialState [Post initializeRequest]"
    by (simp add: oneSession_def)
  have first: "answers ?s1 = answers oneSession @ [(0, PushOpened)]"
    "pushChannel ?s1 = (pushChannel oneSession)(0 := True)"
    "\<exists>n. trace ?s1 = trace oneSession @ [HandleRequest 0 GET None, Send 0 n] \<and>
        sameObject n (infoNotification ''SSE Connection established'')"
    using push_channel_opens_once [of oneSession sampleEnv "[Post initializeRequest]"
        openRequest firstSession 0 False ?s1] one
    by (simp_all add: oneSession_simps)
  have two: "?s1 = run sampleEnv initialState [Post initializeRequest, Get openRequest]"
    by (simp add: oneSession_def)
  have reg: "transports ?s1 firstSession = Some 0"
    by (simp add: get_transports oneSession_simps)
  have "answers (snd (handleGetRequest sampleEnv ?s1 openRequest)) =
      answers ?s1 @ [(0, AlreadyOpen)]"
    using push_channel_opens_once [of ?s1 sampleEnv "[Post initializeRequest, Get openRequest]"
        openRequest firstSession 0 False "snd (handleGetRequest sampleEnv ?s1 openRequest)"]
      two reg first(2)
    by simp
  with first overlapping_opens(1) show ?thesis
    by (simp add: oneSession_simps)
qed

subsection \<open>C4: tool calls\<close>

text \<open>
  C4. A tool call whose \<open>arguments\<close> field is absent fails with the error "arguments
  undefined" (\<open>InvalidArguments\<close>), whatever its name. A tool call with arguments and
  a name (non-empty, as the specification requires of a tool call) that is not among
  the tools the server lists fails with the error "Tool not found" (\<open>ToolNotFound\<close>);
  no tool is registered, so this holds for every name. The handler returns no result in
  any case and changes nothing of the server: the failure is a thrown error, which the
  dispatcher turns into the error response to the request it came from, with the id of
  that request, the error's message and no result.
\<close>

theorem tool_call_fails_with_typed_error:
  "(params_arguments p = None \<longrightarrow> callTool p = Inl (Error ''arguments undefined'')) \<and>
   (params_arguments p \<noteq> None \<longrightarrow> params_name p \<noteq> [] \<longrightarrow>
      params_name p \<notin> set (toolNames listTools) \<longrightarrow>
      callTool p = Inl (Error ''Tool not found'')) \<and>
   set (toolNames listTools) = {} \<and>
   (\<exists>e. callTool p = Inl e \<and>
        dispatch code requestId p =
          JObj [(''jsonrpc'', JStr ''2.0''), (''id'', requestId),
                (''error'', JObj [(''code'', JNum code), (''message'', JStr (errorMessage e))])]) \<and>
   jsonField ''id'' (dispatch code requestId p) = Some requestId \<and>
   jsonField ''result'' (dispatch code requestId p) = None"
  by (simp add: callTool_def dispatch_def toolNames_listTools jsonField_def)

theorem tool_call_fails_with_typed_error_witness:
  "callTool \<lparr>params_name = ''echo'', params_arguments = None\<rparr> =
     Inl (Error ''arguments undefined'') \<and>
   callTool \<lparr>params_name = ''echo'', params_arguments = Some [(''text'', JStr ''hi'')]\<rparr> =
     Inl (Error ''Tool not found'') \<and>
   dispatch (- 32603) (JNum 7)
       \<lparr>params_name = ''echo'', params_arguments = Some [(''text'', JStr ''hi'')]\<rparr> =
     JObj [(''jsonrpc'', JStr ''2.0''), (''id'', JNum 7),
           (''error'', JObj [(''code'', JNum (- 32603)), (''message'', JStr ''Tool not found'')])]"
  using tool_call_fails_with_typed_error
      [of "\<lparr>params_name = ''echo'', params_arguments = None\<rparr>" "- 32603" "JNum 7"]
    tool_call_fails_with_typed_error
      [of "\<lparr>params_name = ''echo'', params_arguments = Some [(''text'', JStr ''hi'')]\<rparr>"
          "- 32603" "JNum 7"]
  by (auto simp: errorMessage_def)

subsection \<open>C5: the error envelope\<close>

text \<open>
  The claim C5 says that a caller who needs the id of the request in the error envelope
  can supply it. \<open>createErrorResponse\<close> takes the message only. A POST whose body
  carries the request id 7 and whose session id is unknown is answered with an envelope
  whose id is a newly generated UUID.
\<close>

theorem error_id_is_not_request_id_counterexample:
  "trace (snd (handlePostRequest sampleEnv initialState
      \<lparr>sessionHeader = Some ''abc'',
       body = JObj [(''jsonrpc'', JStr ''2.0''), (''id'', JNum 7),
                    (''method'', JStr ''tools/list'')]\<rparr>)) =
     [Respond 400
        (JObj [(''jsonrpc'', JStr ''2.0''),
               (''error'', JObj [(''code'', JNum (- 32000)),
                                 (''message'', JStr ''Bad Request: invalid session ID or method.'')]),
               (''id'', JStr ''00000000-0000-4000-8000-000000000000'')])]"
proof -
  have "getTransport initialState ''abc'' = Undefined"
    by (simp add: getTransport_def objectPrototypeKeys_def)
  then show ?thesis
    by (subst bad_request_post) (simp_all add: errorEnvelope_def uuid0 firstSession_def)
qed

text \<open>
  C5, amended. \<open>createErrorResponse(message)\<close> returns exactly the object with the
  fields \<open>jsonrpc\<close> = "2.0", \<open>error\<close> = \<open>{code: -32000, message}\<close> and \<open>id\<close>, in this
  order, where the id is always the value of a new \<open>randomUUID()\<close> call; no caller can
  supply the id. In every run, every answer the server writes itself has status 400 or
  500 and such an envelope as its body, with the message "Bad Request: invalid session
  ID or method." or "Internal server error." respectively.
\<close>

theorem error_envelope_has_fresh_id:
  "createErrorResponse w s m =
     (errorEnvelope m (randomUUID (entropy w (uuids s))), s\<lparr>uuids := Suc (uuids s)\<rparr>) \<and>
   (\<forall>e\<in>set (trace (run w initialState cs)). \<forall>c b. e = Respond c b \<longrightarrow>
      (\<exists>i<uuids (run w initialState cs).
          c = 400 \<and> b = errorEnvelope ''Bad Request: invalid session ID or method.''
                          (randomUUID (entropy w i)) \<or>
          c = 500 \<and> b = errorEnvelope ''Internal server error.'' (randomUUID (entropy w i))))"
proof -
  have "\<exists>i<uuids (run w initialState cs).
          c = 400 \<and> b = errorEnvelope ''Bad Request: invalid session ID or method.''
                          (randomUUID (entropy w i)) \<or>
          c = 500 \<and> b = errorEnvelope ''Internal server error.'' (randomUUID (entropy w i))"
    if "Respond c b \<in> set (trace (run w initialState cs))" for c b
    using ownTrace_reachable [of w cs] that
    by (auto simp: ownTrace_def ownEvent_def)
  then show ?thesis
    by (auto simp: createErrorResponse_def nextUUID_def errorEnvelope_def)
qed

theorem error_envelope_has_fresh_id_witness:
  "fst (createErrorResponse sampleEnv initialState ''Internal server error.'') =
     errorEnvelope ''Internal server error.'' firstSession \<and>
   uuids (snd (createErrorResponse sampleEnv initialState ''Internal server error.'')) = 1 \<and>
   trace (run sampleEnv initialState [Get \<lparr>sessionHeader = None, body = JNull\<rparr>]) =
     [Respond 400 (errorEnvelope ''Bad Request: invalid session ID or method.'' firstSession)]"
proof -
  have "trace (run sampleEnv initialState [Get \<lparr>sessionHeader = None, body = JNull\<rparr>]) =
     [Respond 400 (errorEnvelope ''Bad Request: invalid session ID or method.'' firstSession)]"
    by (simp add: bad_request_get uuid0)
  with error_envelope_has_fresh_id [of sampleEnv initialState "''Internal server error.''" "[]"]
  show ?thesis by (simp add: uuid0)
qed

subsection \<open>C6: isInitializeRequest\<close>

text \<open>
  C6. \<open>isInitializeRequest(body)\<close> is true for an array body exactly when at least one
  element of the array passes the initialize schema, and for any other body exactly
  when the body itself passes it.
\<close>

theorem isInitializeRequest_any_element:
  "isInitializeRequest isInitial b =
     (case b of JArr requests \<Rightarrow> (\<exists>r\<in>set requests. isInitial r) | _ \<Rightarrow> isInitial b)"
  by (simp add: isInitializeRequest_def some_iff split: json.split)

theorem isInitializeRequest_any_element_witness:
  "isInitializeRequest (hasMethod ''initialize'') (JArr [JNull, initializeBody]) \<and>
   \<not> isInitializeRequest (hasMethod ''initialize'') (JArr [JNull, JStr ''initialize'']) \<and>
   isInitializeRequest (hasMethod ''initialize'') initializeBody \<and>
   \<not> isInitializeRequest (hasMethod ''initialize'') (JObj [])"
  by (simp add: isInitializeRequest_any_element init_is_init)
    (simp add: hasMethod_def initializeBody_def)

subsection \<open>C7: shutdown\<close>

text \<open>
  The claim C7 says that on the shutdown signal every registered transport is closed
  and removed. With one session registered, the signal handler calls \<open>close\<close> on the
  SDK server and exits; the session stays in the registry and no call goes to its
  transport.
\<close>

theorem shutdown_keeps_registry_counterexample:
  "fst (onSIGINT sampleEnv (run sampleEnv initialState [Post initializeRequest])) = None \<and>
   transports (snd (onSIGINT sampleEnv (run sampleEnv initialState [Post initializeRequest])))
     firstSession = Some 0 \<and>
   trace (snd (onSIGINT sampleEnv (run sampleEnv initialState [Post initializeRequest]))) =
     [Connect 0, HandleRequest 0 POST (Some initializeBody), ServerClose, ProcessExit 0]"
  by (simp add: post_init_sample onSIGINT_def cleanup_def Let_def emit_def)

text \<open>
  C7, amended. In every state the server can reach, the shutdown signal makes the server
  call \<open>close\<close> on the SDK server and, when that call does not reject, exit the process
  with code 0 (no tool interval is ever set). The registry and the session ids of the
  transports are left as they were: the server itself closes and removes no registered
  transport.
\<close>

theorem shutdown_closes_server_only:
  assumes "s = run w initialState cs"
  shows "transports (snd (onSIGINT w s)) = transports s \<and>
         sessionIdOf (snd (onSIGINT w s)) = sessionIdOf s \<and>
         trace (snd (onSIGINT w s)) =
           trace s @ ServerClose # (if sdkClose w (trace s) = None then [ProcessExit 0] else []) \<and>
         fst (onSIGINT w s) = sdkClose w (trace s)"
  using toolInterval_reachable [of w cs] assms
  by (auto simp: onSIGINT_def cleanup_def Let_def emit_def split: option.split)

theorem shutdown_closes_server_only_witness:
  "transports (snd (onSIGINT sampleEnv oneSession)) = [firstSession \<mapsto> 0] \<and>
   trace (snd (onSIGINT sampleEnv oneSession)) =
     [Connect 0, HandleRequest 0 POST (Some initializeBody), ServerClose, ProcessExit 0] \<and>
   fst (onSIGINT sampleEnv oneSession) = None"
proof -
  have "oneSession = run sampleEnv initialState [Post initializeRequest]"
    by (simp add: oneSession_def)
  from shutdown_closes_server_only [OF this] show ?thesis
    by (simp add: oneSession_simps)
qed

subsection \<open>C8: the registry keeps its entries\<close>

text \<open>
  The claim C8 says that insertion into the registry never overwrites an entry and that
  no two sessions share an id. The assignment \<open>this.transports[sessionId] = transport\<close>
  is made without looking at the registry. When \<open>randomUUID\<close> returns for the second
  session the id it returned for the first, the entry of the first session is
  overwritten by the transport of the second, and both transports have the same id.
\<close>

theorem generator_repeats_counterexample:
  "transports (run repeatingEnv initialState [Post initializeRequest]) firstSession = Some 0 \<and>
   transports (run repeatingEnv initialState [Post initializeRequest, Post initializeRequest])
     firstSession = Some 1 \<and>
   sessionIdOf (run repeatingEnv initialState [Post initializeRequest, Post initializeRequest]) 0 =
     Some firstSession \<and>
   sessionIdOf (run repeatingEnv initialState [Post initializeRequest, Post initializeRequest]) 1 =
     Some firstSession"
  by (simp only: repeating_one repeating_two) (simp add: oneSession_simps)

text \<open>
  C8, amended. The code makes no check for an existing entry; what keeps an entry from
  being overwritten is the generator alone. As long as the ids \<open>randomUUID\<close> has
  returned are pairwise distinct, the following holds in every run of the server, with
  the handlers interleaved at their awaits in any way. A session created by an
  initialize request is inserted under an id that was not in the registry, with a
  transport that no entry refers to, and no other entry changes. Afterwards no entry is
  overwritten or removed, a transport's session id never changes once it is set, no two
  transports have the same session id, and no transport is registered under two ids.
  A handler that is suspended before its insertion inserts its transport under the
  transport's id, where no other transport is registered.
\<close>

theorem insertion_keeps_entries:
  assumes "\<not> truthy (sessionHeader req)"
    and "isInitializeRequest (safeParseInitialize w) (body req)"
    and "s = run w initialState cs"
    and "accepted w s req"
    and "s' = snd (handlePostRequest w s req)"
    and "s'' = run w s' cs'"
    and "inj_on (\<lambda>i. randomUUID (entropy w i)) {..<uuids s''}"
    and "u = randomUUID (entropy w (uuids s))"
  shows "transports s u = None \<and> allocated s \<notin> ran (transports s) \<and>
         sessionIdOf s (allocated s) = None \<and>
         transports s' = (transports s)(u \<mapsto> allocated s) \<and>
         sessionIdOf s' (allocated s) = Some u \<and>
         (\<forall>sid t. transports s' sid = Some t \<longrightarrow> transports s'' sid = Some t) \<and>
         (\<forall>t v. sessionIdOf s' t = Some v \<longrightarrow> sessionIdOf s'' t = Some v) \<and>
         (\<forall>t t' v. sessionIdOf s'' t = Some v \<longrightarrow> sessionIdOf s'' t' = Some v \<longrightarrow> t = t') \<and>
         (\<forall>sid sid' t. transports s'' sid = Some t \<longrightarrow> transports s'' sid' = Some t \<longrightarrow>
            sid = sid') \<and>
         (\<forall>k t v. k < length (pending s'') \<longrightarrow> pending s'' ! k = AwaitNewHandle t None \<longrightarrow>
            sessionIdOf s'' t = Some v \<longrightarrow>
            transports (resume w s'' k) = (transports s'')(v \<mapsto> t) \<and>
            (\<forall>t'. transports s'' v = Some t' \<longrightarrow> t' = t))"
proof -
  have inv: "registryInv w s"
    unfolding assms(3) by (rule registryInv_reachable)
  have eq: "s' = s\<lparr>allocated := Suc (allocated s),
       sessionIdOf := (sessionIdOf s)(allocated s \<mapsto> u),
       uuids := Suc (uuids s),
       trace := trace s @ [Connect (allocated s), HandleRequest (allocated s) POST (Some (body req))],
       answers := answers s @ [(allocated s, SessionId u)],
       transports := (transports s)(u \<mapsto> allocated s)\<rparr>"
    unfolding assms(5,8) by (rule post_init_accepted [OF assms(1,2) inv assms(4)])
  have r': "s' = run w initialState (cs @ [Post req])"
    by (simp add: run_append assms(3,5))
  have r'': "s'' = run w initialState (cs @ [Post req] @ cs')"
    by (simp add: run_append assms(3,5,6))
  have inv'': "registryInv w s''"
    unfolding r'' by (rule registryInv_reachable)
  have inj'': "inj_on (\<lambda>i. randomUUID (entropy w i)) {..<uuids (run w s' cs')}"
    using assms(6,7) by simp
  have d'': "distinctIds s''"
    unfolding assms(6) by (rule entries_kept(1) [OF r' inj''])
  have le: "Suc (uuids s) \<le> uuids s''"
    using advances_run [of w s' cs'] registryInv_reachable [of w "cs @ [Post req]"]
    unfolding advances_def r' [symmetric] assms(6) [symmetric] by (simp add: eq)
  have new: "transports s u = None"
  proof (cases "transports s u")
    case (Some t0)
    from registryInv_id [OF inv registryInv_registered [OF inv Some]]
    obtain i where "i < uuids s" "u = randomUUID (entropy w i)" by blast
    with inj_onD [OF assms(7), of i "uuids s"] le assms(8) show ?thesis by simp
  qed simp
  have two: "sid = sid'" if "transports s'' sid = Some t" "transports s'' sid' = Some t"
    for sid sid' t
    using registryInv_registered [OF inv'' that(1)] registryInv_registered [OF inv'' that(2)]
    by simp
  have other: "t' = t" if "sessionIdOf s'' t = Some v" "transports s'' v = Some t'" for t t' v
    using registryInv_registered [OF inv'' that(2)] that(1) d''
    unfolding distinctIds_def by blast
  have c4: "transports s' = (transports s)(u \<mapsto> allocated s)"
    and c5: "sessionIdOf s' (allocated s) = Some u"
    by (simp_all add: eq)
  have c6: "\<forall>sid t. transports s' sid = Some t \<longrightarrow> transports s'' sid = Some t"
    using entries_kept(2) [OF r' inj''] unfolding assms(6) [symmetric] by blast
  have c7: "\<forall>t v. sessionIdOf s' t = Some v \<longrightarrow> sessionIdOf s'' t = Some v"
    using entries_kept(3) [OF r' inj''] unfolding assms(6) [symmetric] by blast
  have c8: "\<forall>t t' v. sessionIdOf s'' t = Some v \<longrightarrow> sessionIdOf s'' t' = Some v \<longrightarrow> t = t'"
    using d'' unfolding distinctIds_def by blast
  have c9: "\<forall>sid sid' t. transports s'' sid = Some t \<longrightarrow> transports s'' sid' = Some t \<longrightarrow>
            sid = sid'"
    using two by blast
  have c10: "\<forall>k t v. k < length (pending s'') \<longrightarrow> pending s'' ! k = AwaitNewHandle t None \<longrightarrow>
            sessionIdOf s'' t = Some v \<longrightarrow>
            transports (resume w s'' k) = (transports s'')(v \<mapsto> t) \<and>
            (\<forall>t'. transports s'' v = Some t' \<longrightarrow> t' = t)"
    using resume_registers(1) [OF inv''] other by blast
  show ?thesis
    by (intro conjI new fresh_transport [OF inv] registryInv_fresh [OF inv] c4 c5 c6 c7 c8 c9 c10)
qed

theorem insertion_keeps_entries_witness:
  "transports oneSession secondSession = None \<and>
   allocated oneSession \<notin> ran (transports oneSession) \<and>
   transports twoSessions = [firstSession \<mapsto> 0, secondSession \<mapsto> 1] \<and>
   sessionIdOf twoSessions 1 = Some secondSession \<and>
   transports (run sampleEnv twoSessions [Get openRequest]) firstSession = Some 0 \<and>
   transports (run sampleEnv twoSessions [Get openRequest]) secondSession = Some 1 \<and>
   sessionIdOf (run sampleEnv twoSessions [Get openRequest]) 0 = Some firstSession"
proof -
  have p1: "\<not> truthy (sessionHeader initializeRequest)"
    and p2: "isInitializeRequest (safeParseInitialize sampleEnv) (body initializeRequest)"
    by (simp_all add: isInit_initBody)
  have p3: "oneSession = run sampleEnv initialState [Post initializeRequest]"
    by (simp add: oneSession_def)
  have p5: "twoSessions = snd (handlePostRequest sampleEnv oneSession initializeRequest)"
    by (simp add: twoSessions_def oneSession_def)
  have p7: "inj_on (\<lambda>i. randomUUID (entropy sampleEnv i))
           {..<uuids (run sampleEnv twoSessions [Get openRequest])}"
    unfolding twoSessions_get(1) by (rule sample_ids_distinct)
  have p8: "secondSession = randomUUID (entropy sampleEnv (uuids oneSession))"
    by (simp add: uuid1 oneSession_simps)
  from insertion_keeps_entries [OF p1 p2 p3 accepted_sample(1) p5 refl p7 p8]
  have "transports oneSession secondSession = None"
    and "allocated oneSession \<notin> ran (transports oneSession)"
    and "transports twoSessions = (transports oneSession)(secondSession \<mapsto> allocated oneSession)"
    and "sessionIdOf twoSessions (allocated oneSession) = Some secondSession"
    and "\<forall>sid t. transports twoSessions sid = Some t \<longrightarrow>
           transports (run sampleEnv twoSessions [Get openRequest]) sid = Some t"
    and "\<forall>t v. sessionIdOf twoSessions t = Some v \<longrightarrow>
           sessionIdOf (run sampleEnv twoSessions [Get openRequest]) t = Some v"
    by blast+
  then show ?thesis
    by (simp add: oneSession_simps twoSessions_simps)
qed

subsection \<open>C9: cleaning up twice\<close>




subsection \<open>C10: opening the push channel leaves the registry alone\<close>

text \<open>
  C10. A GET never changes the session registry: whether it is answered with 400, is
  handed to the session's transport, or throws, the own properties of
  \<open>this.transports\<close> are the same before and after. A POST changes the registry only
  on the path for an initialize request without a session id.
\<close>

theorem get_leaves_registry:
  "transports (snd (handleGetRequest w s req)) = transports s \<and>
   (transports (snd (handlePostRequest w s req)) \<noteq> transports s \<longrightarrow>
      \<not> truthy (sessionHeader req) \<and> isInitializeRequest (safeParseInitialize w) (body req))"
proof
  show "transports (snd (handleGetRequest w s req)) = transports s"
    by (rule get_transports)
  consider
      (known) t where "truthy (sessionHeader req)"
        "getTransport s (the (sessionHeader req)) = Own t"
    | (inherited) "truthy (sessionHeader req)"
        "getTransport s (the (sessionHeader req)) = Inherited"
    | (init) "\<not> truthy (sessionHeader req)"
        "isInitializeRequest (safeParseInitialize w) (body req)"
    | (bad) "truthy (sessionHeader req) \<and> getTransport s (the (sessionHeader req)) = Undefined \<or>
        \<not> truthy (sessionHeader req) \<and> \<not> isInitializeRequest (safeParseInitialize w) (body req)"
    by (cases "getTransport s (the (sessionHeader req))") auto
  then show "transports (snd (handlePostRequest w s req)) \<noteq> transports s \<longrightarrow>
      \<not> truthy (sessionHeader req) \<and> isInitializeRequest (safeParseInitialize w) (body req)"
  proof cases
    case known
    then show ?thesis
      by (simp add: post_known split: option.split)
  next
    case inherited
    then show ?thesis
      by (simp add: post_inherited)
  next
    case bad
    then show ?thesis
      by (simp add: post_bad)
  next
    case init
    then show ?thesis by simp
  qed
qed

theorem get_leaves_registry_witness:
  "transports (snd (handleGetRequest sampleEnv oneSession openRequest)) =
     [firstSession \<mapsto> 0] \<and>
   transports (snd (handlePostRequest sampleEnv initialState initializeRequest)) \<noteq>
     transports initialState \<and>
   \<not> truthy (sessionHeader initializeRequest) \<and>
   isInitializeRequest (safeParseInitialize sampleEnv) (body initializeRequest)"
proof -
  have changed: "transports (snd (handlePostRequest sampleEnv initialState initializeRequest)) \<noteq>
     transports initialState"
    by (simp add: post_init_sample)
  from get_leaves_registry [of sampleEnv oneSession openRequest]
    get_leaves_registry [of sampleEnv initialState initializeRequest] changed
  show ?thesis by (simp add: oneSession_simps)
qed

end
